theory Spec2Isabelle
  imports Main
begin

section \<open>Push manifest generation (push-manifest.ts)\<close>

text \<open>
  A shallow embedding of \<^verbatim>\<open>src/push-manifest.ts\<close>. JavaScript strings are modelled as
  \<^typ>\<open>string\<close>; the functions below only ever inspect the characters \<^verbatim>\<open>/\<close> and \<^verbatim>\<open>.\<close>.
  The plain objects that the source uses as dictionaries (\<^verbatim>\<open>PushManifest\<close>,
  \<^verbatim>\<open>PushManifestEntryCollection\<close>) are lists of their own properties, kept in the order
  in which \<^verbatim>\<open>Object.keys\<close> enumerates them; reading a key falls back to the members
  of \<^verbatim>\<open>Object.prototype\<close>, and assigning to \<^verbatim>\<open>__proto__\<close> creates no property.
\<close>

subsection \<open>Data model\<close>

datatype ResourceType = TDocument | TScript | TStyle | TImage | TFont

record PushManifestEntry =
  type :: "ResourceType option"
  weight :: "nat option"

type_synonym PushManifestEntryCollection = "(string \<times> PushManifestEntry) list"

type_synonym PushManifest = "(string \<times> PushManifestEntryCollection) list"

text \<open>The part of the analyzer's \<^verbatim>\<open>Import\<close> feature that the source reads.\<close>

record Import =
  url :: string
  kinds :: "string set"

text \<open>
  What \<^verbatim>\<open>analysis.getDocument(url)\<close> may return: a \<^verbatim>\<open>Document\<close>, represented by
  the imports that \<^verbatim>\<open>getFeatures({kind: 'import', externalPackages: true, imported: true})\<close>
  iterates over, in iteration order; some other object, represented by its \<^verbatim>\<open>message\<close>
  property (\<open>None\<close> when the property is undefined); or \<^verbatim>\<open>undefined\<close>. The call
  \<^verbatim>\<open>analyzer.analyze([url])\<close> itself is taken to resolve.
\<close>

datatype AnalyzedDocument =
  Document "Import list"
  | Warning "string option"
  | Undefined

datatype error = Error string

subsection \<open>Node's \<^verbatim>\<open>path\<close> module (POSIX flavour)\<close>

text \<open>
  \<^verbatim>\<open>path.extname\<close>, \<^verbatim>\<open>path.join\<close> and \<^verbatim>\<open>path.posix.join\<close> belong to the Node runtime.
  They are modelled after Node's implementation for POSIX paths: a path is cut into
  segments at every \<^verbatim>\<open>/\<close>.
\<close>

fun split_slash :: "string \<Rightarrow> string list" where
  "split_slash [] = [[]]"
| "split_slash (c # cs) =
     (if c = CHR ''/'' then [] # split_slash cs
      else (case split_slash cs of
              [] \<Rightarrow> [[c]]
            | seg # segs \<Rightarrow> (c # seg) # segs))"

fun join_slash :: "string list \<Rightarrow> string" where
  "join_slash [] = []"
| "join_slash [s] = s"
| "join_slash (s # t # ss) = s @ CHR ''/'' # join_slash (t # ss)"

text \<open>
  The last path component: trailing slashes are skipped, then everything after the last
  remaining slash is taken.
\<close>

definition last_component :: "string \<Rightarrow> string" where
  "last_component p =
     rev (takeWhile (\<lambda>c. c \<noteq> CHR ''/'') (dropWhile (\<lambda>c. c = CHR ''/'') (rev p)))"

text \<open>
  \<^verbatim>\<open>extname\<close>: from the last \<^verbatim>\<open>.\<close> of the last component to its end; empty when
  there is no dot, when the only dot is the component's first character, and when the
  component is \<^verbatim>\<open>..\<close>.
\<close>

definition extname :: "string \<Rightarrow> string" where
  "extname p =
     (let comp = last_component p;
          ext = rev (takeWhile (\<lambda>c. c \<noteq> CHR ''.'') (rev comp))
      in if CHR ''.'' \<notin> set comp then []
         else if length ext + 1 = length comp then []
         else if comp = ''..'' then []
         else CHR ''.'' # ext)"

text \<open>
  \<^verbatim>\<open>normalizeString\<close>: empty and \<^verbatim>\<open>.\<close> segments are dropped; \<^verbatim>\<open>..\<close> removes the
  segment before it, unless there is none or it is itself \<^verbatim>\<open>..\<close>, in which case it is kept
  when the path is relative (\<open>allowAboveRoot\<close>) and dropped otherwise. The accumulator holds
  the segments kept so far, last one first.
\<close>

fun normalize_step :: "bool \<Rightarrow> string list \<Rightarrow> string \<Rightarrow> string list" where
  "normalize_step allowAboveRoot res seg =
     (if seg = [] \<or> seg = ''.'' then res
      else if seg = ''..'' then
        (case res of
           [] \<Rightarrow> if allowAboveRoot then [''..''] else []
         | r # rs \<Rightarrow> if r = ''..'' then (if allowAboveRoot then ''..'' # r # rs else r # rs)
                     else rs)
      else seg # res)"

definition normalizeString :: "string \<Rightarrow> bool \<Rightarrow> string" where
  "normalizeString p allowAboveRoot =
     join_slash (rev (foldl (normalize_step allowAboveRoot) [] (split_slash p)))"

definition posix_normalize :: "string \<Rightarrow> string" where
  "posix_normalize p =
     (if p = [] then ''.''
      else
        let isAbsolute = (hd p = CHR ''/'');
            trailingSeparator = (last p = CHR ''/'');
            q = normalizeString p (\<not> isAbsolute)
        in if q = [] then (if isAbsolute then ''/'' else if trailingSeparator then ''./'' else ''.'')
           else
             let q' = (if trailingSeparator then q @ ''/'' else q)
             in if isAbsolute then CHR ''/'' # q' else q')"

definition posix_join :: "string list \<Rightarrow> string" where
  "posix_join args =
     (let joined = join_slash (filter (\<lambda>arg. arg \<noteq> []) args)
      in if joined = [] then ''.'' else posix_normalize joined)"

text \<open>
  Two notions for reasoning about \<^verbatim>\<open>normalizeString\<close>: a segment that is kept as it
  is, and an accumulator in which the \<^verbatim>\<open>..\<close> segments lie below all others.
\<close>

definition plain :: "string \<Rightarrow> bool" where
  "plain s = (s \<noteq> [] \<and> s \<noteq> ''.'' \<and> s \<noteq> ''..'' \<and> CHR ''/'' \<notin> set s)"

fun good_stack :: "string list \<Rightarrow> bool" where
  "good_stack [] = True"
| "good_stack (r # rs) =
     (if r = ''..'' then list_all (\<lambda>s. s = ''..'') rs else plain r \<and> good_stack rs)"

subsection \<open>Resource types\<close>

definition extensionToTypeMapping :: "(string \<times> ResourceType) list" where
  "extensionToTypeMapping =
     [(''.css'', TStyle),
      (''.gif'', TImage),
      (''.html'', TDocument),
      (''.png'', TImage),
      (''.jpg'', TImage),
      (''.js'', TScript),
      (''.json'', TScript),
      (''.svg'', TImage),
      (''.webp'', TImage),
      (''.woff'', TFont),
      (''.woff2'', TFont)]"

definition getResourceTypeFromUrl :: "string \<Rightarrow> ResourceType option" where
  "getResourceTypeFromUrl u = map_of extensionToTypeMapping (extname u)"

definition getResourceTypeFromImport :: "Import \<Rightarrow> ResourceType option" where
  "getResourceTypeFromImport importFeature =
     (let importKinds = kinds importFeature
      in if ''css-import'' \<in> importKinds \<or> ''html-style'' \<in> importKinds then Some TStyle
         else if ''html-import'' \<in> importKinds then Some TDocument
         else if ''html-script'' \<in> importKinds then Some TScript
         else getResourceTypeFromUrl (url importFeature))"

definition createPushEntryFromImport :: "Import \<Rightarrow> PushManifestEntry" where
  "createPushEntryFromImport importFeature =
     \<lparr>type = getResourceTypeFromImport importFeature, weight = Some 1\<rparr>"

subsection \<open>Plain objects used as dictionaries\<close>

text \<open>
  An object created by \<^verbatim>\<open>{}\<close> is represented by the list of its own properties in the
  order of \<^verbatim>\<open>Object.keys\<close>: first the keys that are array indices (the decimal numerals
  of the integers from 0 to \<open>2\<^sup>3\<^sup>2 - 2\<close>), in ascending numeric order, then all other keys in
  the order in which they were created.
\<close>

definition is_digit :: "char \<Rightarrow> bool" where
  "is_digit c = (c \<in> set ''0123456789'')"

definition index_value :: "string \<Rightarrow> nat" where
  "index_value s = foldl (\<lambda>n c. 10 * n + (of_char c - 48)) 0 s"

definition array_index :: "string \<Rightarrow> nat option" where
  "array_index s =
     (if s \<noteq> [] \<and> list_all is_digit s \<and> (s = ''0'' \<or> hd s \<noteq> CHR ''0'') \<and>
         index_value s < 4294967295
      then Some (index_value s) else None)"

text \<open>Whether key \<open>k\<close> is enumerated before key \<open>k'\<close> whatever their order of creation.\<close>

definition enumerated_before :: "string \<Rightarrow> string \<Rightarrow> bool" where
  "enumerated_before k k' =
     (case array_index k of
        None \<Rightarrow> False
      | Some n \<Rightarrow> (case array_index k' of None \<Rightarrow> True | Some n' \<Rightarrow> n < n'))"

text \<open>Creating a property: it goes before the first key that must follow it.\<close>

fun obj_create :: "string \<Rightarrow> 'v \<Rightarrow> (string \<times> 'v) list \<Rightarrow> (string \<times> 'v) list" where
  "obj_create k v [] = [(k, v)]"
| "obj_create k v ((k', v') # rest) =
     (if enumerated_before k k' then (k, v) # (k', v') # rest
      else (k', v') # obj_create k v rest)"

text \<open>Writing an existing property: it keeps its place.\<close>

fun obj_replace :: "string \<Rightarrow> 'v \<Rightarrow> (string \<times> 'v) list \<Rightarrow> (string \<times> 'v) list" where
  "obj_replace k v [] = []"
| "obj_replace k v ((k', v') # rest) =
     (if k' = k then (k, v) # rest else (k', v') # obj_replace k v rest)"

text \<open>
  The assignment \<^verbatim>\<open>o[k] = v\<close>, where \<open>v\<close> is an object. For the key \<^verbatim>\<open>__proto__\<close> it
  runs the setter inherited from \<^verbatim>\<open>Object.prototype\<close>, which replaces the prototype of
  \<open>o\<close> and leaves its own properties as they are. Every other inherited member is a
  writable data property, so that the assignment creates an own property.
\<close>

definition obj_set :: "string \<Rightarrow> 'v \<Rightarrow> (string \<times> 'v) list \<Rightarrow> (string \<times> 'v) list" where
  "obj_set k v obj =
     (if k = ''__proto__'' then obj
      else if k \<in> fst ` set obj then obj_replace k v obj
      else obj_create k v obj)"

text \<open>The names of the members of \<^verbatim>\<open>Object.prototype\<close>.\<close>

definition objectPrototypeKeys :: "string list" where
  "objectPrototypeKeys =
     [''constructor'', ''__defineGetter__'', ''__defineSetter__'', ''hasOwnProperty'',
      ''__lookupGetter__'', ''__lookupSetter__'', ''isPrototypeOf'', ''propertyIsEnumerable'',
      ''toString'', ''valueOf'', ''__proto__'', ''toLocaleString'']"

text \<open>
  The read \<^verbatim>\<open>o[k]\<close> on an object whose prototype is \<^verbatim>\<open>Object.prototype\<close>: an own
  property, else an inherited member (a function, or for \<^verbatim>\<open>__proto__\<close> the prototype
  itself), else \<^verbatim>\<open>undefined\<close>.
\<close>

datatype 'v member = Own 'v | Inherited | Missing

definition obj_get :: "(string \<times> 'v) list \<Rightarrow> string \<Rightarrow> 'v member" where
  "obj_get obj k =
     (case map_of obj k of
        Some v \<Rightarrow> Own v
      | None \<Rightarrow> if k \<in> set objectPrototypeKeys then Inherited else Missing)"

text \<open>
  The lists that represent objects: no key twice, no key \<^verbatim>\<open>__proto__\<close>, and no key
  after one that it is enumerated before.
\<close>

definition js_object :: "(string \<times> 'v) list \<Rightarrow> bool" where
  "js_object obj =
     (distinct (map fst obj) \<and> ''__proto__'' \<notin> fst ` set obj \<and>
      sorted_wrt (\<lambda>k k'. \<not> enumerated_before k' k) (map fst obj))"

subsection \<open>Resolving one entry URL\<close>

text \<open>
  \<^verbatim>\<open>ignoreUrls && ignoreUrls.indexOf(url) > -1\<close>: without a list nothing is ignored.
\<close>

definition shouldIgnoreFile :: "string list option \<Rightarrow> string \<Rightarrow> bool" where
  "shouldIgnoreFile ignoreUrls u =
     (case ignoreUrls of None \<Rightarrow> False | Some us \<Rightarrow> u \<in> set us)"

text \<open>
  One iteration of the loop over the analyzed imports. An entry and an inherited member
  are objects and so are truthy: \<^verbatim>\<open>!analyzedImportEntry\<close> holds exactly when the read
  gives \<^verbatim>\<open>undefined\<close>.
\<close>

definition addImport ::
  "string list option \<Rightarrow> PushManifestEntryCollection \<Rightarrow> Import \<Rightarrow> PushManifestEntryCollection"
where
  "addImport ignoreUrls pushManifestEntries analyzedImport =
     (let analyzedImportUrl = url analyzedImport;
          analyzedImportEntry = obj_get pushManifestEntries analyzedImportUrl
      in if \<not> shouldIgnoreFile ignoreUrls analyzedImportUrl \<and> analyzedImportEntry = Missing
         then obj_set analyzedImportUrl (createPushEntryFromImport analyzedImport)
                pushManifestEntries
         else pushManifestEntries)"

text \<open>
  \<^verbatim>\<open>analyzedDocument && analyzedDocument.message || 'unknown'\<close>: the message when there is
  an object with a non-empty one, the text \<^verbatim>\<open>unknown\<close> otherwise.
\<close>

definition generatePushManifestEntryForUrl ::
  "(string \<Rightarrow> AnalyzedDocument) \<Rightarrow> string \<Rightarrow> string list option
     \<Rightarrow> error + PushManifestEntryCollection"
where
  "generatePushManifestEntryForUrl analyzer u ignoreUrls =
     (case analyzer u of
        Document analyzedImports \<Rightarrow> Inr (foldl (addImport ignoreUrls) [] analyzedImports)
      | Warning msg \<Rightarrow>
          Inl (Error (''Unable to get document '' @ u @ '': '' @
            (case msg of
               Some m \<Rightarrow> if m \<noteq> [] then m else ''unknown''
             | None \<Rightarrow> ''unknown'')))
      | Undefined \<Rightarrow> Inl (Error (''Unable to get document '' @ u @ '': '' @ ''unknown'')))"

subsection \<open>The stream and its manifest\<close>

record File =
  path :: string
  contents :: string

record ProjectConfig =
  root :: string
  entrypoint :: string
  shell :: "string option"
  fragments :: "string list"

record AddPushManifest =
  files :: "string \<rightharpoonup> File"
  outPath :: string
  config :: ProjectConfig
  basePath :: string

text \<open>\<^verbatim>\<open>s || d\<close> for an optional string: \<open>d\<close> when \<open>s\<close> is undefined or empty.\<close>

definition or_else :: "string option \<Rightarrow> string \<Rightarrow> string" where
  "or_else s d = (case s of None \<Rightarrow> d | Some t \<Rightarrow> if t = [] then d else t)"

definition new_AddPushManifest ::
  "ProjectConfig \<Rightarrow> string option \<Rightarrow> string option \<Rightarrow> AddPushManifest" where
  "new_AddPushManifest cfg outPath' basePath' =
     \<lparr>files = Map.empty,
      outPath = posix_join [root cfg, or_else outPath' ''push-manifest.json''],
      config = cfg,
      basePath = or_else basePath' []\<rparr>"

text \<open>The loop over the fragments; the first failing resolution ends it.\<close>

fun addFragments ::
  "(string \<Rightarrow> AnalyzedDocument) \<Rightarrow> (string \<Rightarrow> string) \<Rightarrow> string list \<Rightarrow> string list
     \<Rightarrow> PushManifest \<Rightarrow> error + PushManifest"
where
  "addFragments analyzer toUrl fragmentIgnoreUrls [] pushManifest = Inr pushManifest"
| "addFragments analyzer toUrl fragmentIgnoreUrls (fragment # rest) pushManifest =
     (let absoluteFragmentUrl = toUrl fragment
      in case generatePushManifestEntryForUrl analyzer absoluteFragmentUrl
                (Some fragmentIgnoreUrls) of
           Inl e \<Rightarrow> Inl e
         | Inr entries \<Rightarrow>
             addFragments analyzer toUrl fragmentIgnoreUrls rest
               (obj_set absoluteFragmentUrl entries pushManifest))"

definition normalizeUrl :: "string \<Rightarrow> string \<Rightarrow> string" where
  "normalizeUrl base p = dropWhile (\<lambda>c. c = CHR ''/'') (posix_join [base, p])"

text \<open>
  The two nested loops of the normalization. Going through \<^verbatim>\<open>Object.keys(o)\<close> and
  reading \<^verbatim>\<open>o[key]\<close> visits the properties of \<open>o\<close> in order.
\<close>

definition normalizeTargets ::
  "string \<Rightarrow> PushManifestEntryCollection \<Rightarrow> PushManifestEntryCollection" where
  "normalizeTargets base entries =
     foldl (\<lambda>targets (target, entry). obj_set (normalizeUrl base target) entry targets)
       [] entries"

definition normalizeManifest :: "string \<Rightarrow> PushManifest \<Rightarrow> PushManifest" where
  "normalizeManifest base pushManifest =
     foldl (\<lambda>normalized (source, entries).
              obj_set (normalizeUrl base source) (normalizeTargets base entries) normalized)
       [] pushManifest"

text \<open>
  The manifest before normalization. \<open>urlFromPath\<close> (from \<^verbatim>\<open>./path-transformers\<close>) and
  the analyzer are parameters. Reading \<^verbatim>\<open>pushManifest[absoluteShellUrl]\<close> right after the
  assignment gives the shell's collection back, also for the key \<^verbatim>\<open>__proto__\<close>, where
  the collection has become the prototype.
\<close>

definition rawPushManifest ::
  "(string \<Rightarrow> string \<Rightarrow> string) \<Rightarrow> (string \<Rightarrow> AnalyzedDocument) \<Rightarrow> ProjectConfig
     \<Rightarrow> error + PushManifest"
where
  "rawPushManifest urlFromPath analyzer cfg =
     (let mainPushEntrypoint = or_else (shell cfg) (entrypoint cfg);
          absoluteShellUrl = urlFromPath (root cfg) mainPushEntrypoint
      in case generatePushManifestEntryForUrl analyzer absoluteShellUrl None of
           Inl e \<Rightarrow> Inl e
         | Inr shellEntries \<Rightarrow>
             let pushManifest = obj_set absoluteShellUrl shellEntries [];
                 shellImportUrls = map fst shellEntries;
                 fragmentIgnoreUrls = [absoluteShellUrl] @ shellImportUrls
             in addFragments analyzer (urlFromPath (root cfg)) fragmentIgnoreUrls
                  (fragments cfg) pushManifest)"

definition generatePushManifest ::
  "(string \<Rightarrow> string \<Rightarrow> string) \<Rightarrow> ((string \<rightharpoonup> File) \<Rightarrow> string \<Rightarrow> AnalyzedDocument)
     \<Rightarrow> AddPushManifest \<Rightarrow> error + PushManifest"
where
  "generatePushManifest urlFromPath analyze this =
     (case rawPushManifest urlFromPath (analyze (files this)) (config this) of
        Inl e \<Rightarrow> Inl e
      | Inr pushManifest \<Rightarrow> Inr (normalizeManifest (basePath this) pushManifest))"

subsection \<open>\<^verbatim>\<open>JSON.stringify\<close> with a two-space indent\<close>

definition hex_digit :: "nat \<Rightarrow> char" where
  "hex_digit n = ''0123456789abcdef'' ! (n mod 16)"

definition json_escape :: "char \<Rightarrow> string" where
  "json_escape c =
     (let n = (of_char c :: nat)
      in if n = 0x22 then [CHR 0x5C, CHR 0x22]
         else if n = 0x5C then [CHR 0x5C, CHR 0x5C]
         else if n = 0x08 then [CHR 0x5C, CHR ''b'']
         else if n = 0x09 then [CHR 0x5C, CHR ''t'']
         else if n = 0x0A then [CHR 0x5C, CHR ''n'']
         else if n = 0x0C then [CHR 0x5C, CHR ''f'']
         else if n = 0x0D then [CHR 0x5C, CHR ''r'']
         else if n < 0x20 then
           [CHR 0x5C, CHR ''u'', CHR ''0'', CHR ''0'', hex_digit (n div 16), hex_digit n]
         else [c])"

definition json_quote :: "string \<Rightarrow> string" where
  "json_quote s = CHR 0x22 # concat (map json_escape s) @ [CHR 0x22]"

fun decimal :: "nat \<Rightarrow> string" where
  "decimal n =
     (if n < 10 then [''0123456789'' ! n]
      else decimal (n div 10) @ [''0123456789'' ! (n mod 10)])"

fun join_lines :: "string list \<Rightarrow> string" where
  "join_lines [] = []"
| "join_lines [s] = s"
| "join_lines (s # t # ss) = s @ CHR '','' # CHR 0x0A # join_lines (t # ss)"

text \<open>An object with the given members (key and serialized value), nested at \<open>indent\<close>.\<close>

definition json_object :: "string \<Rightarrow> (string \<times> string) list \<Rightarrow> string" where
  "json_object indent members =
     (if members = [] then ''{}''
      else CHR ''{'' # CHR 0x0A #
           join_lines (map (\<lambda>(k, v). indent @ ''  '' @ json_quote k @ '': '' @ v) members)
           @ CHR 0x0A # indent @ ''}'')"

definition resourceTypeName :: "ResourceType \<Rightarrow> string" where
  "resourceTypeName t =
     (case t of TDocument \<Rightarrow> ''document'' | TScript \<Rightarrow> ''script'' | TStyle \<Rightarrow> ''style''
      | TImage \<Rightarrow> ''image'' | TFont \<Rightarrow> ''font'')"

text \<open>A property whose value is undefined is left out.\<close>

definition json_entry :: "string \<Rightarrow> PushManifestEntry \<Rightarrow> string" where
  "json_entry indent entry =
     json_object indent
       ((case type entry of None \<Rightarrow> [] | Some t \<Rightarrow> [(''type'', json_quote (resourceTypeName t))])
        @ (case weight entry of None \<Rightarrow> [] | Some n \<Rightarrow> [(''weight'', decimal n)]))"

definition JSON_stringify :: "PushManifest \<Rightarrow> string" where
  "JSON_stringify pushManifest =
     json_object []
       (map (\<lambda>(source, entries).
               (source, json_object ''  ''
                  (map (\<lambda>(target, entry). (target, json_entry ''    '' entry)) entries)))
          pushManifest)"

text \<open>Lines of text, joined by newlines, for writing down expected output.\<close>

fun join_newline :: "string list \<Rightarrow> string" where
  "join_newline [] = []"
| "join_newline [l] = l"
| "join_newline (l # m # ls) = l @ CHR 0x0A # join_newline (m # ls)"

subsection \<open>The transform\<close>

text \<open>
  \<^verbatim>\<open>_transformIter\<close>: every file is recorded under its URL and yielded; then the manifest
  is generated and yielded as one more file. The result is the list of files yielded, in
  order, and the error thrown, if any.
\<close>

definition recordFile ::
  "(string \<Rightarrow> string \<Rightarrow> string) \<Rightarrow> AddPushManifest \<Rightarrow> File \<Rightarrow> AddPushManifest" where
  "recordFile urlFromPath this file =
     this\<lparr>files := (files this)(urlFromPath (root (config this)) (path file) \<mapsto> file)\<rparr>"

definition transformIter ::
  "(string \<Rightarrow> string \<Rightarrow> string) \<Rightarrow> ((string \<rightharpoonup> File) \<Rightarrow> string \<Rightarrow> AnalyzedDocument)
     \<Rightarrow> AddPushManifest \<Rightarrow> File list \<Rightarrow> File list \<times> error option"
where
  "transformIter urlFromPath analyze this input =
     (let this' = foldl (recordFile urlFromPath) this input
      in case generatePushManifest urlFromPath analyze this' of
           Inl e \<Rightarrow> (input, Some e)
         | Inr pushManifest \<Rightarrow>
             (input @ [\<lparr>path = outPath this', contents = JSON_stringify pushManifest\<rparr>], None))"

subsection \<open>A sample project\<close>

text \<open>
  A shell that imports a style sheet and an element, and one fragment that imports the
  same style sheet twice, the shell itself and a script. The URL of a file is its path
  below the root.
\<close>

definition sample_config :: ProjectConfig where
  "sample_config =
     \<lparr>root = ''/app'', entrypoint = ''index.html'', shell = Some ''shell.html'',
      fragments = [''view.html'']\<rparr>"

fun strip_prefix :: "string \<Rightarrow> string \<Rightarrow> string option" where
  "strip_prefix [] p = Some p"
| "strip_prefix (c # cs) [] = None"
| "strip_prefix (c # cs) (d # ds) = (if c = d then strip_prefix cs ds else None)"

definition sample_urlFromPath :: "string \<Rightarrow> string \<Rightarrow> string" where
  "sample_urlFromPath r p =
     (case strip_prefix (r @ ''/'') p of None \<Rightarrow> p | Some rest \<Rightarrow> rest)"

definition sample_imports :: "string \<Rightarrow> Import list" where
  "sample_imports u =
     (if u = ''shell.html'' then
        [\<lparr>url = ''/css/app.css'', kinds = {''css-import''}\<rparr>,
         \<lparr>url = ''elements/x-app.html'', kinds = {''html-import''}\<rparr>]
      else if u = ''view.html'' then
        [\<lparr>url = ''/css/app.css'', kinds = {''html-style''}\<rparr>,
         \<lparr>url = ''js/view.js'', kinds = {''html-script''}\<rparr>,
         \<lparr>url = ''shell.html'', kinds = {''html-import''}\<rparr>,
         \<lparr>url = ''js/view.js'', kinds = {''js-import''}\<rparr>]
      else [])"

text \<open>The sample analyzer finds a document for exactly the files it was given.\<close>

definition sample_analyze :: "(string \<rightharpoonup> File) \<Rightarrow> string \<Rightarrow> AnalyzedDocument" where
  "sample_analyze fs u =
     (if fs u = None then Warning (Some ''not found'') else Document (sample_imports u))"

definition sample_files :: "File list" where
  "sample_files =
     [\<lparr>path = ''/app/shell.html'', contents = ''shell''\<rparr>,
      \<lparr>path = ''/app/view.html'', contents = ''view''\<rparr>]"

definition sample_stream :: AddPushManifest where
  "sample_stream = new_AddPushManifest sample_config None None"

text \<open>The stream after all sample files went through, and after only the first did.\<close>

definition sample_recorded :: AddPushManifest where
  "sample_recorded = foldl (recordFile sample_urlFromPath) sample_stream sample_files"

definition sample_partial :: AddPushManifest where
  "sample_partial = foldl (recordFile sample_urlFromPath) sample_stream (take 1 sample_files)"

definition sample_view_entries :: PushManifestEntryCollection where
  "sample_view_entries =
     [(''/css/app.css'', \<lparr>type = Some TStyle, weight = Some 1\<rparr>),
      (''js/view.js'', \<lparr>type = Some TScript, weight = Some 1\<rparr>),
      (''shell.html'', \<lparr>type = Some TDocument, weight = Some 1\<rparr>)]"

definition sample_raw_manifest :: PushManifest where
  "sample_raw_manifest =
     [(''shell.html'',
        [(''/css/app.css'', \<lparr>type = Some TStyle, weight = Some 1\<rparr>),
         (''elements/x-app.html'', \<lparr>type = Some TDocument, weight = Some 1\<rparr>)]),
      (''view.html'',
        [(''js/view.js'', \<lparr>type = Some TScript, weight = Some 1\<rparr>)])]"

definition sample_manifest :: PushManifest where
  "sample_manifest =
     [(''shell.html'',
        [(''css/app.css'', \<lparr>type = Some TStyle, weight = Some 1\<rparr>),
         (''elements/x-app.html'', \<lparr>type = Some TDocument, weight = Some 1\<rparr>)]),
      (''view.html'',
        [(''js/view.js'', \<lparr>type = Some TScript, weight = Some 1\<rparr>)])]"

section \<open>Properties\<close>

subsection \<open>The model of Node's functions on sample inputs\<close>

text \<open>
  The first six extensions and the first join are the examples of Node's documentation.
\<close>

lemma extname_examples:
  "extname ''index.html'' = ''.html''"
  "extname ''index.coffee.md'' = ''.md''"
  "extname ''index.'' = ''.''"
  "extname ''index'' = []"
  "extname ''.index'' = []"
  "extname ''.index.md'' = ''.md''"
  "extname ''a.b/c'' = []"
  "extname ''a/b.css/'' = ''.css''"
  "extname ''..'' = []"
  by (simp_all add: extname_def last_component_def)

lemma posix_join_examples:
  "posix_join [''/foo'', ''bar'', ''baz/asdf'', ''quux'', ''..''] = ''/foo/bar/baz/asdf''"
  "posix_normalize ''/foo/bar//baz/asdf/quux/..'' = ''/foo/bar/baz/asdf''"
  "posix_join [[], ''../a/./b/''] = ''../a/b/''"
  "posix_join [[], []] = ''.''"
  "posix_join [''a'', ''../..''] = ''..''"
  by (simp_all add: posix_join_def posix_normalize_def normalizeString_def
      normalize_step.simps)

lemma JSON_stringify_example:
  \<open>JSON_stringify
     [(''index.html'',
        [(''css/app.css'', \<lparr>type = Some TStyle, weight = Some 1\<rparr>),
         (''js/app.js'', \<lparr>type = Some TScript, weight = Some 1\<rparr>)]),
      (''view.html'', [])]
   = join_newline
       [''{'',
        ''  "index.html": {'',
        ''    "css/app.css": {'',
        ''      "type": "style",'',
        ''      "weight": 1'',
        ''    },'',
        ''    "js/app.js": {'',
        ''      "type": "script",'',
        ''      "weight": 1'',
        ''    }'',
        ''  },'',
        ''  "view.html": {}'',
        ''}'']\<close>
  by (simp add: JSON_stringify_def json_object_def json_entry_def json_quote_def
      json_escape_def resourceTypeName_def)

subsection \<open>Auxiliary facts about the dictionaries\<close>

lemma enumerated_before_asym: "enumerated_before k k' \<Longrightarrow> \<not> enumerated_before k' k"
  by (auto simp add: enumerated_before_def split: option.splits)

lemma enumerated_before_trans:
  "enumerated_before a b \<Longrightarrow> enumerated_before b c \<Longrightarrow> enumerated_before a c"
  by (auto simp add: enumerated_before_def split: option.splits)

lemma obj_create_set: "set (obj_create k v obj) = insert (k, v) (set obj)"
  by (induction obj) (auto split: if_splits)

lemma obj_create_lookup:
  "k \<notin> fst ` set obj
     \<Longrightarrow> map_of (obj_create k v obj) x = (if x = k then Some v else map_of obj x)"
  by (induction obj) auto

lemma obj_create_map_of:
  "k \<notin> fst ` set obj \<Longrightarrow> map_of (obj_create k v obj) = (map_of obj)(k \<mapsto> v)"
  by (rule ext) (simp add: obj_create_lookup)

lemma obj_create_distinct:
  "distinct (map fst obj) \<Longrightarrow> k \<notin> fst ` set obj \<Longrightarrow> distinct (map fst (obj_create k v obj))"
proof (induction obj)
  case Nil
  then show ?case by simp
next
  case (Cons p obj)
  obtain k' v' where p: "p = (k', v')" by (cases p)
  from Cons.prems have "k' \<noteq> k" "k \<notin> fst ` set obj" "distinct (map fst obj)"
    "k' \<notin> fst ` set obj"
    by (auto simp add: p)
  moreover from this have "distinct (map fst (obj_create k v obj))"
    using Cons.IH by simp
  moreover have "fst ` set (obj_create k v obj) = insert k (fst ` set obj)"
    by (simp add: obj_create_set)
  ultimately show ?case
    by (auto simp add: p)
qed

lemma obj_create_sorted:
  "sorted_wrt (\<lambda>k k'. \<not> enumerated_before k' k) (map fst obj)
     \<Longrightarrow> sorted_wrt (\<lambda>k k'. \<not> enumerated_before k' k) (map fst (obj_create k v obj))"
proof (induction obj)
  case Nil
  then show ?case by simp
next
  case (Cons p obj)
  obtain k' v' where p: "p = (k', v')" by (cases p)
  from Cons.prems have tl: "sorted_wrt (\<lambda>k k'. \<not> enumerated_before k' k) (map fst obj)"
    and hd: "\<forall>y \<in> fst ` set obj. \<not> enumerated_before y k'"
    by (auto simp add: p)
  show ?case
  proof (cases "enumerated_before k k'")
    case True
    have "\<not> enumerated_before k' k"
      using True by (rule enumerated_before_asym)
    moreover have "\<forall>y \<in> fst ` set obj. \<not> enumerated_before y k"
      using True hd enumerated_before_trans by blast
    ultimately show ?thesis
      using True Cons.prems by (auto simp add: p)
  next
    case False
    have "fst ` set (obj_create k v obj) = insert k (fst ` set obj)"
      by (simp add: obj_create_set)
    with False hd tl Cons.IH show ?thesis
      by (auto simp add: p)
  qed
qed

lemma obj_create_last:
  "\<forall>x \<in> fst ` set obj. \<not> enumerated_before k x \<Longrightarrow> obj_create k v obj = obj @ [(k, v)]"
  by (induction obj) auto

lemma obj_replace_keys: "map fst (obj_replace k v obj) = map fst obj"
  by (induction obj) auto

lemma obj_replace_lookup:
  "k \<in> fst ` set obj
     \<Longrightarrow> map_of (obj_replace k v obj) x = (if x = k then Some v else map_of obj x)"
  by (induction obj) force+

lemma obj_replace_map_of:
  "k \<in> fst ` set obj \<Longrightarrow> map_of (obj_replace k v obj) = (map_of obj)(k \<mapsto> v)"
  by (rule ext) (simp add: obj_replace_lookup)

lemma obj_replace_value_cases:
  "(a, b) \<in> set (obj_replace k v obj) \<Longrightarrow> b = v \<or> (a, b) \<in> set obj"
  by (induction obj) (auto split: if_splits)

lemma obj_set_proto: "obj_set ''__proto__'' v obj = obj"
  by (simp add: obj_set_def)

lemma obj_set_map_of:
  "k \<noteq> ''__proto__'' \<Longrightarrow> map_of (obj_set k v obj) = (map_of obj)(k \<mapsto> v)"
  by (simp add: obj_set_def obj_create_map_of obj_replace_map_of)

lemma obj_set_keys:
  "fst ` set (obj_set k v obj)
     = (if k = ''__proto__'' then fst ` set obj else insert k (fst ` set obj))"
proof -
  have "fst ` set (obj_replace k v obj) = fst ` set obj"
    using obj_replace_keys [of k v obj] by (metis set_map)
  then show ?thesis
    by (auto simp add: obj_set_def obj_create_set)
qed

lemma obj_set_distinct:
  "distinct (map fst obj) \<Longrightarrow> distinct (map fst (obj_set k v obj))"
  by (simp add: obj_set_def obj_create_distinct obj_replace_keys)

lemma obj_set_value_cases:
  "(a, b) \<in> set (obj_set k v obj) \<Longrightarrow> b = v \<or> (a, b) \<in> set obj"
  by (auto simp add: obj_set_def obj_create_set dest: obj_replace_value_cases split: if_splits)

lemma obj_set_js_object: "js_object obj \<Longrightarrow> js_object (obj_set k v obj)"
  unfolding js_object_def
  by (auto simp add: obj_set_distinct obj_set_keys)
    (auto simp add: obj_set_def obj_replace_keys obj_create_sorted)

lemma obj_set_last:
  assumes "js_object (obj @ [(k, v)])"
  shows "obj_set k v obj = obj @ [(k, v)]"
proof -
  from assms have "k \<noteq> ''__proto__''" and "k \<notin> fst ` set obj"
    and "\<forall>x \<in> fst ` set obj. \<not> enumerated_before k x"
    by (auto simp add: js_object_def sorted_wrt_append)
  then show ?thesis
    by (simp add: obj_set_def obj_create_last)
qed

lemma count_list_distinct: "distinct xs \<Longrightarrow> x \<in> set xs \<Longrightarrow> count_list xs x = 1"
  by (induction xs) (auto simp add: count_list_0_iff)

lemma foldl_obj_set_map_of:
  "map_of (foldl (\<lambda>acc (k, v). obj_set (f k) (g v) acc) acc xs) s =
     (if s = ''__proto__'' then map_of acc s
      else case map_of (rev (map (\<lambda>(k, v). (f k, g v)) xs)) s of
             Some w \<Rightarrow> Some w
           | None \<Rightarrow> map_of acc s)"
proof (induction xs arbitrary: acc)
  case Nil
  then show ?case by simp
next
  case (Cons x xs)
  obtain k v where x: "x = (k, v)" by (cases x)
  show ?case
  proof (cases "f k = ''__proto__''")
    case True
    then show ?thesis
      by (simp add: Cons.IH x obj_set_proto map_add_def split: option.splits)
  next
    case False
    then show ?thesis
      by (simp add: Cons.IH x obj_set_map_of map_add_def split: option.splits)
  qed
qed

lemma foldl_obj_set_distinct:
  "distinct (map fst acc)
     \<Longrightarrow> distinct (map fst (foldl (\<lambda>acc (k, v). obj_set (f k) (g v) acc) acc xs))"
proof (induction xs arbitrary: acc)
  case Nil
  then show ?case by simp
next
  case (Cons x xs)
  obtain k v where x: "x = (k, v)" by (cases x)
  show ?case
    using Cons.prems by (simp add: x Cons.IH obj_set_distinct)
qed

lemma foldl_obj_set_js_object:
  "js_object acc \<Longrightarrow> js_object (foldl (\<lambda>acc (k, v). obj_set (f k) (g v) acc) acc xs)"
proof (induction xs arbitrary: acc)
  case Nil
  then show ?case by simp
next
  case (Cons x xs)
  obtain k v where x: "x = (k, v)" by (cases x)
  show ?case
    using Cons.prems by (simp add: x Cons.IH obj_set_js_object)
qed

lemma foldl_obj_set_keys:
  "fst ` set (foldl (\<lambda>acc (k, v). obj_set (f k) (g v) acc) acc xs)
     = fst ` set acc \<union> (f ` fst ` set xs - {''__proto__''})"
proof (induction xs arbitrary: acc)
  case Nil
  then show ?case by simp
next
  case (Cons x xs)
  obtain k v where x: "x = (k, v)" by (cases x)
  show ?case
    by (auto simp add: x Cons.IH obj_set_keys)
qed

lemma foldl_obj_set_values:
  "(a, b) \<in> set (foldl (\<lambda>acc (k, v). obj_set (f k) (g v) acc) acc xs)
     \<Longrightarrow> (\<exists>a'. (a', b) \<in> set acc) \<or> (\<exists>k v. (k, v) \<in> set xs \<and> b = g v)"
proof (induction xs arbitrary: acc)
  case Nil
  then show ?case by auto
next
  case (Cons x xs)
  obtain k v where x: "x = (k, v)" by (cases x)
  from Cons.prems
  have "(a, b) \<in> set (foldl (\<lambda>acc (k, v). obj_set (f k) (g v) acc)
                        (obj_set (f k) (g v) acc) xs)"
    by (simp add: x)
  then consider (old) a' where "(a', b) \<in> set (obj_set (f k) (g v) acc)"
    | (new) k' v' where "(k', v') \<in> set xs" "b = g v'"
    using Cons.IH by blast
  then show ?case
  proof cases
    case old
    then have "b = g v \<or> (a', b) \<in> set acc"
      by (rule obj_set_value_cases)
    then show ?thesis
      unfolding x by auto
  next
    case new
    then show ?thesis by auto
  qed
qed

lemma map_of_rev_last:
  "filter (\<lambda>(k, v). f k = s) xs \<noteq> []
     \<Longrightarrow> map_of (rev (map (\<lambda>(k, v). (f k, g v)) xs)) s
           = Some (g (snd (last (filter (\<lambda>(k, v). f k = s) xs))))"
proof (induction xs rule: rev_induct)
  case Nil
  then show ?case by simp
next
  case (snoc x xs)
  obtain k v where x: "x = (k, v)" by (cases x)
  show ?case
    using snoc by (auto simp add: x)
qed

subsection \<open>Auxiliary facts about the loop over the imports\<close>

lemma proto_is_inherited: "''__proto__'' \<in> set objectPrototypeKeys"
  by (simp add: objectPrototypeKeys_def)

lemma obj_get_Missing:
  "obj_get obj k = Missing \<longleftrightarrow> map_of obj k = None \<and> k \<notin> set objectPrototypeKeys"
  by (simp add: obj_get_def split: option.splits)

lemma addImport_map_of:
  "map_of (addImport ign acc i) u =
     (case map_of acc u of
        Some e \<Rightarrow> Some e
      | None \<Rightarrow> if url i = u \<and> \<not> shouldIgnoreFile ign u \<and> u \<notin> set objectPrototypeKeys
                then Some (createPushEntryFromImport i) else None)"
proof (cases "\<not> shouldIgnoreFile ign (url i) \<and> obj_get acc (url i) = Missing")
  case True
  then have "url i \<noteq> ''__proto__''"
    using proto_is_inherited by (auto simp add: obj_get_Missing)
  with True show ?thesis
    by (auto simp add: addImport_def Let_def obj_set_map_of obj_get_Missing
        split: option.splits)
next
  case False
  then show ?thesis
    by (auto simp add: addImport_def Let_def obj_get_Missing split: option.splits)
qed

lemma foldl_addImport_map_of:
  "map_of (foldl (addImport ign) acc imps) u =
     (case map_of acc u of
        Some e \<Rightarrow> Some e
      | None \<Rightarrow> if shouldIgnoreFile ign u \<or> u \<in> set objectPrototypeKeys then None
                else map_option createPushEntryFromImport (find (\<lambda>j. url j = u) imps))"
proof (induction imps arbitrary: acc)
  case Nil
  then show ?case by (simp split: option.splits)
next
  case (Cons i imps)
  show ?case
    by (simp add: Cons.IH addImport_map_of split: option.splits)
qed

lemma addImport_distinct:
  "distinct (map fst acc) \<Longrightarrow> distinct (map fst (addImport ign acc i))"
  by (simp add: addImport_def Let_def obj_set_distinct)

lemma foldl_addImport_distinct:
  "distinct (map fst acc) \<Longrightarrow> distinct (map fst (foldl (addImport ign) acc imps))"
  by (induction imps arbitrary: acc) (simp_all add: addImport_distinct)

lemma addImport_js_object: "js_object acc \<Longrightarrow> js_object (addImport ign acc i)"
  by (simp add: addImport_def Let_def obj_set_js_object)

lemma foldl_addImport_js_object:
  "js_object acc \<Longrightarrow> js_object (foldl (addImport ign) acc imps)"
  by (induction imps arbitrary: acc) (simp_all add: addImport_js_object)

lemma addImport_weight:
  assumes "\<forall>e \<in> snd ` set acc. weight e = Some 1"
  shows "\<forall>e \<in> snd ` set (addImport ign acc i). weight e = Some 1"
proof
  fix e
  assume "e \<in> snd ` set (addImport ign acc i)"
  then obtain k where "(k, e) \<in> set (addImport ign acc i)"
    by auto
  then have "e = createPushEntryFromImport i \<or> (k, e) \<in> set acc"
    by (auto simp add: addImport_def Let_def dest: obj_set_value_cases split: if_splits)
  then show "weight e = Some 1"
    using assms by (auto simp add: createPushEntryFromImport_def)
qed

lemma foldl_addImport_weight:
  "\<forall>e \<in> snd ` set acc. weight e = Some 1
     \<Longrightarrow> \<forall>e \<in> snd ` set (foldl (addImport ign) acc imps). weight e = Some 1"
proof (induction imps arbitrary: acc)
  case Nil
  then show ?case by simp
next
  case (Cons i imps)
  from Cons.prems have "\<forall>e \<in> snd ` set (addImport ign acc i). weight e = Some 1"
    by (rule addImport_weight)
  then have "\<forall>e \<in> snd ` set (foldl (addImport ign) (addImport ign acc i) imps).
               weight e = Some 1"
    by (rule Cons.IH)
  then show ?case by simp
qed

subsection \<open>Assignments that create a property at the end\<close>

text \<open>A key that does not start with a digit is created at the end.\<close>

lemma array_index_no_digit: "\<not> is_digit c \<Longrightarrow> array_index (c # cs) = None"
  by (simp add: array_index_def)

lemma obj_create_plain: "\<not> is_digit c \<Longrightarrow> obj_create (c # cs) v obj = obj @ [(c # cs, v)]"
  by (rule obj_create_last) (simp add: enumerated_before_def array_index_no_digit)

declare obj_create.simps [simp del]

lemmas obj_eval = obj_set_def obj_get_def objectPrototypeKeys_def obj_create_plain is_digit_def
  Let_def

subsection \<open>The sample project, evaluated\<close>

lemma sample_recorded_eq:
  "sample_recorded =
     \<lparr>files = [''shell.html'' \<mapsto> \<lparr>path = ''/app/shell.html'', contents = ''shell''\<rparr>,
               ''view.html'' \<mapsto> \<lparr>path = ''/app/view.html'', contents = ''view''\<rparr>],
      outPath = ''/app/push-manifest.json'',
      config = sample_config,
      basePath = []\<rparr>"
  by (simp add: sample_recorded_def sample_stream_def sample_files_def recordFile_def
      new_AddPushManifest_def sample_config_def sample_urlFromPath_def or_else_def
      posix_join_def posix_normalize_def normalizeString_def)

lemma sample_partial_eq:
  "sample_partial =
     \<lparr>files = [''shell.html'' \<mapsto> \<lparr>path = ''/app/shell.html'', contents = ''shell''\<rparr>],
      outPath = ''/app/push-manifest.json'',
      config = sample_config,
      basePath = []\<rparr>"
  by (simp add: sample_partial_def sample_stream_def sample_files_def recordFile_def
      new_AddPushManifest_def sample_config_def sample_urlFromPath_def or_else_def
      posix_join_def posix_normalize_def normalizeString_def)

lemma sample_shell_doc:
  "sample_analyze (files sample_recorded) ''shell.html'' = Document (sample_imports ''shell.html'')"
  by (simp add: sample_recorded_eq sample_analyze_def)

lemma sample_view_doc:
  "sample_analyze (files sample_recorded) ''view.html'' = Document (sample_imports ''view.html'')"
  by (simp add: sample_recorded_eq sample_analyze_def)

lemma sample_view:
  "generatePushManifestEntryForUrl (sample_analyze (files sample_recorded)) ''view.html'' None =
     Inr sample_view_entries"
  by (simp add: generatePushManifestEntryForUrl_def sample_view_doc sample_imports_def
      addImport_def obj_eval shouldIgnoreFile_def createPushEntryFromImport_def
      getResourceTypeFromImport_def sample_view_entries_def)

lemma sample_shell:
  "generatePushManifestEntryForUrl (sample_analyze (files sample_recorded)) ''shell.html'' None =
     Inr [(''/css/app.css'', \<lparr>type = Some TStyle, weight = Some 1\<rparr>),
          (''elements/x-app.html'', \<lparr>type = Some TDocument, weight = Some 1\<rparr>)]"
  by (simp add: generatePushManifestEntryForUrl_def sample_shell_doc sample_imports_def
      addImport_def obj_eval shouldIgnoreFile_def createPushEntryFromImport_def
      getResourceTypeFromImport_def)

lemma sample_view_ignoring_shell:
  "generatePushManifestEntryForUrl (sample_analyze (files sample_recorded)) ''view.html''
     (Some [''shell.html'', ''/css/app.css'', ''elements/x-app.html''])
     = Inr [(''js/view.js'', \<lparr>type = Some TScript, weight = Some 1\<rparr>)]"
  by (simp add: generatePushManifestEntryForUrl_def sample_view_doc sample_imports_def
      addImport_def obj_eval shouldIgnoreFile_def createPushEntryFromImport_def
      getResourceTypeFromImport_def)

lemma sample_raw:
  "rawPushManifest sample_urlFromPath (sample_analyze (files sample_recorded)) sample_config =
     Inr sample_raw_manifest"
proof -
  have urls: "sample_urlFromPath (root sample_config)
                (or_else (shell sample_config) (entrypoint sample_config)) = ''shell.html''"
    "sample_urlFromPath (root sample_config) ''view.html'' = ''view.html''"
    "fragments sample_config = [''view.html'']"
    by (simp_all add: sample_config_def or_else_def sample_urlFromPath_def)
  show ?thesis
    by (simp add: rawPushManifest_def urls sample_shell sample_view_ignoring_shell
        sample_raw_manifest_def obj_eval)
qed

lemma sample_normalizeUrl:
  "normalizeUrl [] ''shell.html'' = ''shell.html''"
  "normalizeUrl [] ''view.html'' = ''view.html''"
  "normalizeUrl [] ''/css/app.css'' = ''css/app.css''"
  "normalizeUrl [] ''elements/x-app.html'' = ''elements/x-app.html''"
  "normalizeUrl [] ''js/view.js'' = ''js/view.js''"
  by (simp_all add: normalizeUrl_def posix_join_def posix_normalize_def normalizeString_def)

lemma sample_normalized:
  "normalizeManifest [] sample_raw_manifest = sample_manifest"
  by (simp add: normalizeManifest_def normalizeTargets_def sample_normalizeUrl
      sample_raw_manifest_def sample_manifest_def obj_eval)

lemma sample_generate:
  "generatePushManifest sample_urlFromPath sample_analyze sample_recorded = Inr sample_manifest"
proof -
  have "config sample_recorded = sample_config" "basePath sample_recorded = []"
    by (simp_all add: sample_recorded_eq)
  then show ?thesis
    by (simp add: generatePushManifest_def sample_raw sample_normalized)
qed

subsection \<open>Classification\<close>

text \<open>
  What \<^verbatim>\<open>extname\<close> returns for a URL that ends in a dot and a non-empty suffix without
  dots and slashes, when the dot does not start the URL or follow a slash.
\<close>

lemma extname_of_suffix:
  assumes "p \<noteq> []" and "last p \<noteq> CHR ''/''" and "e \<noteq> []"
    and "CHR ''.'' \<notin> set e" and "CHR ''/'' \<notin> set e"
  shows "extname (p @ CHR ''.'' # e) = CHR ''.'' # e"
proof -
  let ?c0 = "rev (takeWhile (\<lambda>c. c \<noteq> CHR ''/'') (rev p))"
  have c0: "?c0 \<noteq> []"
    using assms(1,2) by (cases p rule: rev_cases) auto
  have "hd (rev e) \<noteq> CHR ''/''"
    using assms(3,5) by (metis hd_in_set rev_is_Nil_conv set_rev)
  then have "dropWhile (\<lambda>c. c = CHR ''/'') (rev (p @ CHR ''.'' # e)) = rev (p @ CHR ''.'' # e)"
    using assms(3) by (cases "rev e") auto
  moreover have "takeWhile (\<lambda>c. c \<noteq> CHR ''/'') (rev (p @ CHR ''.'' # e))
                   = rev e @ CHR ''.'' # takeWhile (\<lambda>c. c \<noteq> CHR ''/'') (rev p)"
  proof -
    have "takeWhile (\<lambda>c. c \<noteq> CHR ''/'') (rev e @ CHR ''.'' # rev p)
            = rev e @ takeWhile (\<lambda>c. c \<noteq> CHR ''/'') (CHR ''.'' # rev p)"
      by (rule takeWhile_append2) (use assms(5) in auto)
    then show ?thesis by simp
  qed
  ultimately have comp: "last_component (p @ CHR ''.'' # e) = ?c0 @ CHR ''.'' # e"
    by (simp add: last_component_def)
  have ext: "rev (takeWhile (\<lambda>c. c \<noteq> CHR ''.'') (rev (?c0 @ CHR ''.'' # e))) = e"
  proof -
    have "takeWhile (\<lambda>c. c \<noteq> CHR ''.'') (rev e @ CHR ''.'' # rev ?c0)
            = rev e @ takeWhile (\<lambda>c. c \<noteq> CHR ''.'') (CHR ''.'' # rev ?c0)"
      by (rule takeWhile_append2) (use assms(4) in auto)
    then show ?thesis by simp
  qed
  have "length (?c0 @ CHR ''.'' # e) \<ge> 3"
    using c0 assms(3) by (cases ?c0; cases e) auto
  moreover have "length ''..'' = 2"
    by simp
  ultimately have "?c0 @ CHR ''.'' # e \<noteq> ''..''"
    by (auto dest: arg_cong [where f = length])
  moreover have "length e + 1 \<noteq> length (?c0 @ CHR ''.'' # e)"
    using c0 by simp
  ultimately show ?thesis
    unfolding extname_def comp Let_def ext by simp
qed

text \<open>
  C5: \<^verbatim>\<open>getResourceTypeFromUrl\<close> maps a URL whose extension (\<^verbatim>\<open>path.extname\<close>) is
  \<^verbatim>\<open>.css\<close> to style; \<^verbatim>\<open>.gif\<close>, \<^verbatim>\<open>.png\<close>, \<^verbatim>\<open>.jpg\<close>, \<^verbatim>\<open>.svg\<close>, \<^verbatim>\<open>.webp\<close> to
  image; \<^verbatim>\<open>.html\<close> to document; \<^verbatim>\<open>.js\<close>, \<^verbatim>\<open>.json\<close> to script; \<^verbatim>\<open>.woff\<close>,
  \<^verbatim>\<open>.woff2\<close> to font; and a URL with any other extension, or with none, to no type.
\<close>

theorem getResourceTypeFromUrl_table:
  "(extname u = ''.css'' \<longrightarrow> getResourceTypeFromUrl u = Some TStyle) \<and>
   (extname u \<in> {''.gif'', ''.png'', ''.jpg'', ''.svg'', ''.webp''}
      \<longrightarrow> getResourceTypeFromUrl u = Some TImage) \<and>
   (extname u = ''.html'' \<longrightarrow> getResourceTypeFromUrl u = Some TDocument) \<and>
   (extname u \<in> {''.js'', ''.json''} \<longrightarrow> getResourceTypeFromUrl u = Some TScript) \<and>
   (extname u \<in> {''.woff'', ''.woff2''} \<longrightarrow> getResourceTypeFromUrl u = Some TFont) \<and>
   (extname u \<notin> {''.css'', ''.gif'', ''.png'', ''.jpg'', ''.svg'', ''.webp'', ''.html'',
                  ''.js'', ''.json'', ''.woff'', ''.woff2''}
      \<longrightarrow> getResourceTypeFromUrl u = None)"
  by (auto simp add: getResourceTypeFromUrl_def extensionToTypeMapping_def)

theorem getResourceTypeFromUrl_table_witness:
  "extname ''css/app.css'' = ''.css'' \<and> getResourceTypeFromUrl ''css/app.css'' = Some TStyle \<and>
   extname ''img/logo.webp'' = ''.webp'' \<and> getResourceTypeFromUrl ''img/logo.webp'' = Some TImage \<and>
   extname ''pages/x.html'' = ''.html'' \<and> getResourceTypeFromUrl ''pages/x.html'' = Some TDocument \<and>
   extname ''data.json'' = ''.json'' \<and> getResourceTypeFromUrl ''data.json'' = Some TScript \<and>
   extname ''f.woff2'' = ''.woff2'' \<and> getResourceTypeFromUrl ''f.woff2'' = Some TFont \<and>
   extname ''notes.txt'' = ''.txt'' \<and> getResourceTypeFromUrl ''notes.txt'' = None \<and>
   extname ''bower_components/README'' = [] \<and>
   getResourceTypeFromUrl ''bower_components/README'' = None"
  using getResourceTypeFromUrl_table [of "''css/app.css''"]
    getResourceTypeFromUrl_table [of "''img/logo.webp''"]
    getResourceTypeFromUrl_table [of "''pages/x.html''"]
    getResourceTypeFromUrl_table [of "''data.json''"]
    getResourceTypeFromUrl_table [of "''f.woff2''"]
    getResourceTypeFromUrl_table [of "''notes.txt''"]
    getResourceTypeFromUrl_table [of "''bower_components/README''"]
  by (simp add: extname_def last_component_def)

text \<open>
  C3, as amended: an import whose kinds include \<^verbatim>\<open>html-import\<close> and neither
  \<^verbatim>\<open>css-import\<close> nor \<^verbatim>\<open>html-style\<close> is classified as a document, whatever the extension of
  its URL and whatever other kinds it has. The two style kinds are tested first and win.
\<close>

theorem html_import_is_document:
  "''html-import'' \<in> kinds i \<Longrightarrow> ''css-import'' \<notin> kinds i \<Longrightarrow> ''html-style'' \<notin> kinds i
     \<Longrightarrow> getResourceTypeFromImport i = Some TDocument"
  by (simp add: getResourceTypeFromImport_def)

theorem html_import_is_document_witness:
  "''html-import'' \<in> kinds \<lparr>url = ''js/app.js'', kinds = {''html-script'', ''html-import''}\<rparr> \<and>
   ''css-import'' \<notin> kinds \<lparr>url = ''js/app.js'', kinds = {''html-script'', ''html-import''}\<rparr> \<and>
   ''html-style'' \<notin> kinds \<lparr>url = ''js/app.js'', kinds = {''html-script'', ''html-import''}\<rparr> \<and>
   getResourceTypeFromImport \<lparr>url = ''js/app.js'', kinds = {''html-script'', ''html-import''}\<rparr>
     = Some TDocument"
  using html_import_is_document
    [of "\<lparr>url = ''js/app.js'', kinds = {''html-script'', ''html-import''}\<rparr>"]
  by simp

text \<open>
  The claim as stated fails: an import tagged both \<^verbatim>\<open>html-import\<close> and \<^verbatim>\<open>css-import\<close> is
  a style.
\<close>

theorem html_import_counterexample:
  "''html-import'' \<in> kinds \<lparr>url = ''x.html'', kinds = {''html-import'', ''css-import''}\<rparr> \<and>
   getResourceTypeFromImport \<lparr>url = ''x.html'', kinds = {''html-import'', ''css-import''}\<rparr>
     \<noteq> Some TDocument"
  by (simp add: getResourceTypeFromImport_def)

subsection \<open>Resolution failures\<close>

text \<open>
  C10: when the analyzer's result for the URL is not a document and is undefined, or has
  an undefined or empty message, the error message is exactly
  \<^verbatim>\<open>Unable to get document <url>: unknown\<close>.
\<close>

theorem unknown_message_fallback:
  "analyzer u = Undefined \<or> analyzer u = Warning None \<or> analyzer u = Warning (Some [])
     \<Longrightarrow> generatePushManifestEntryForUrl analyzer u ignoreUrls
           = Inl (Error (''Unable to get document '' @ u @ '': unknown''))"
  by (auto simp add: generatePushManifestEntryForUrl_def)

theorem unknown_message_fallback_witness:
  "generatePushManifestEntryForUrl (\<lambda>_. Undefined) ''index.html'' None
     = Inl (Error ''Unable to get document index.html: unknown'') \<and>
   generatePushManifestEntryForUrl (\<lambda>_. Warning None) ''index.html'' (Some [''a''])
     = Inl (Error ''Unable to get document index.html: unknown'') \<and>
   generatePushManifestEntryForUrl (\<lambda>_. Warning (Some [])) ''index.html'' None
     = Inl (Error ''Unable to get document index.html: unknown'')"
  using unknown_message_fallback [of "\<lambda>_. Undefined" "''index.html''" None]
    unknown_message_fallback [of "\<lambda>_. Warning None" "''index.html''" "Some [''a'']"]
    unknown_message_fallback [of "\<lambda>_. Warning (Some [])" "''index.html''" None]
  by simp

subsection \<open>Weights\<close>

lemma generate_entry_Inr:
  "generatePushManifestEntryForUrl analyzer u ign = Inr c
     \<Longrightarrow> \<exists>imps. analyzer u = Document imps \<and> c = foldl (addImport ign) [] imps"
  by (auto simp add: generatePushManifestEntryForUrl_def split: AnalyzedDocument.splits)

lemma generate_entry_weight:
  assumes "generatePushManifestEntryForUrl analyzer u ign = Inr c"
  shows "\<forall>e \<in> snd ` set c. weight e = Some 1"
proof -
  from assms obtain imps where "c = foldl (addImport ign) [] imps"
    using generate_entry_Inr by blast
  moreover have "\<forall>e \<in> snd ` set (foldl (addImport ign) [] imps). weight e = Some 1"
    by (rule foldl_addImport_weight) simp
  ultimately show ?thesis by simp
qed

lemma addFragments_weight:
  "addFragments analyzer toUrl ign frs pm = Inr pm'
     \<Longrightarrow> \<forall>c \<in> snd ` set pm. \<forall>e \<in> snd ` set c. weight e = Some 1
     \<Longrightarrow> \<forall>c \<in> snd ` set pm'. \<forall>e \<in> snd ` set c. weight e = Some 1"
proof (induction frs arbitrary: pm)
  case Nil
  then show ?case by simp
next
  case (Cons f frs)
  from Cons.prems(1) obtain c where
    c: "generatePushManifestEntryForUrl analyzer (toUrl f) (Some ign) = Inr c"
    and rest: "addFragments analyzer toUrl ign frs (obj_set (toUrl f) c pm) = Inr pm'"
    by (auto simp add: Let_def split: sum.splits)
  have "\<forall>d \<in> snd ` set (obj_set (toUrl f) c pm). \<forall>e \<in> snd ` set d. weight e = Some 1"
  proof
    fix d
    assume "d \<in> snd ` set (obj_set (toUrl f) c pm)"
    then obtain k where "(k, d) \<in> set (obj_set (toUrl f) c pm)"
      by auto
    then have "d = c \<or> (k, d) \<in> set pm"
      by (rule obj_set_value_cases)
    then show "\<forall>e \<in> snd ` set d. weight e = Some 1"
    proof
      assume "d = c"
      then show ?thesis using generate_entry_weight [OF c] by simp
    next
      assume "(k, d) \<in> set pm"
      then have "d \<in> snd ` set pm" by force
      then show ?thesis using Cons.prems(2) by blast
    qed
  qed
  with rest show ?case by (rule Cons.IH)
qed

lemma rawPushManifest_weight:
  assumes "rawPushManifest urlFromPath analyzer cfg = Inr pm"
  shows "\<forall>c \<in> snd ` set pm. \<forall>e \<in> snd ` set c. weight e = Some 1"
proof -
  let ?u = "urlFromPath (root cfg) (or_else (shell cfg) (entrypoint cfg))"
  from assms obtain c where
    c: "generatePushManifestEntryForUrl analyzer ?u None = Inr c"
    and rest: "addFragments analyzer (urlFromPath (root cfg)) (?u # map fst c) (fragments cfg)
                 (obj_set ?u c []) = Inr pm"
    by (auto simp add: rawPushManifest_def Let_def split: sum.splits)
  have "\<forall>d \<in> snd ` set (obj_set ?u c []). \<forall>e \<in> snd ` set d. weight e = Some 1"
  proof
    fix d
    assume "d \<in> snd ` set (obj_set ?u c [])"
    then obtain k where "(k, d) \<in> set (obj_set ?u c [])"
      by auto
    then have "d = c"
      using obj_set_value_cases by fastforce
    then show "\<forall>e \<in> snd ` set d. weight e = Some 1"
      using generate_entry_weight [OF c] by simp
  qed
  with rest show ?thesis by (rule addFragments_weight)
qed

lemma normalizeTargets_weight:
  assumes "\<forall>e \<in> snd ` set c. weight e = Some 1"
  shows "\<forall>e \<in> snd ` set (normalizeTargets b c). weight e = Some 1"
proof
  fix e
  assume "e \<in> snd ` set (normalizeTargets b c)"
  then obtain k where "(k, e) \<in> set (normalizeTargets b c)"
    by auto
  then have "\<exists>k' v. (k', v) \<in> set c \<and> e = v"
    unfolding normalizeTargets_def
    using foldl_obj_set_values [of k e "normalizeUrl b" "\<lambda>v. v" "[]" c] by simp
  then have "e \<in> snd ` set c" by force
  then show "weight e = Some 1" using assms by blast
qed

lemma normalizeManifest_weight:
  assumes "\<forall>c \<in> snd ` set pm. \<forall>e \<in> snd ` set c. weight e = Some 1"
  shows "\<forall>c \<in> snd ` set (normalizeManifest b pm). \<forall>e \<in> snd ` set c. weight e = Some 1"
proof
  fix d
  assume "d \<in> snd ` set (normalizeManifest b pm)"
  then obtain k where "(k, d) \<in> set (normalizeManifest b pm)"
    by auto
  then have "\<exists>k' c. (k', c) \<in> set pm \<and> d = normalizeTargets b c"
    unfolding normalizeManifest_def
    using foldl_obj_set_values [of k d "normalizeUrl b" "normalizeTargets b" "[]" pm] by simp
  then obtain k' c where "(k', c) \<in> set pm" and d: "d = normalizeTargets b c"
    by blast
  then have "c \<in> snd ` set pm" by force
  then have "\<forall>e \<in> snd ` set c. weight e = Some 1" using assms by blast
  then show "\<forall>e \<in> snd ` set d. weight e = Some 1"
    unfolding d by (rule normalizeTargets_weight)
qed

text \<open>
  C8: every entry the system produces has weight exactly 1: the entry made for an import,
  every entry of a collection returned by an entry resolution, and every entry of every
  collection of a generated manifest.
\<close>

theorem weight_is_one:
  "weight (createPushEntryFromImport i) = Some 1 \<and>
   (generatePushManifestEntryForUrl analyzer u ign = Inr c
      \<longrightarrow> list_all (\<lambda>(k, e). weight e = Some 1) c) \<and>
   (generatePushManifest urlFromPath analyze this = Inr m
      \<longrightarrow> list_all (\<lambda>(s, d). list_all (\<lambda>(k, e). weight e = Some 1) d) m)"
proof (intro conjI impI)
  show "weight (createPushEntryFromImport i) = Some 1"
    by (simp add: createPushEntryFromImport_def)
next
  assume "generatePushManifestEntryForUrl analyzer u ign = Inr c"
  then have "\<forall>e \<in> snd ` set c. weight e = Some 1"
    by (rule generate_entry_weight)
  then show "list_all (\<lambda>(k, e). weight e = Some 1) c"
    by (auto simp add: list_all_iff)
next
  assume "generatePushManifest urlFromPath analyze this = Inr m"
  then obtain pm where pm: "rawPushManifest urlFromPath (analyze (files this)) (config this) = Inr pm"
    and m: "m = normalizeManifest (basePath this) pm"
    by (auto simp add: generatePushManifest_def split: sum.splits)
  have "\<forall>c \<in> snd ` set pm. \<forall>e \<in> snd ` set c. weight e = Some 1"
    using pm by (rule rawPushManifest_weight)
  then have "\<forall>c \<in> snd ` set m. \<forall>e \<in> snd ` set c. weight e = Some 1"
    unfolding m by (rule normalizeManifest_weight)
  then show "list_all (\<lambda>(s, d). list_all (\<lambda>(k, e). weight e = Some 1) d) m"
    by (fastforce simp add: list_all_iff)
qed

theorem weight_is_one_witness:
  "generatePushManifestEntryForUrl (sample_analyze (files sample_recorded)) ''view.html'' None
     = Inr sample_view_entries \<and>
   list_all (\<lambda>(k, e). weight e = Some 1) sample_view_entries \<and>
   generatePushManifest sample_urlFromPath sample_analyze sample_recorded = Inr sample_manifest \<and>
   list_all (\<lambda>(s, d). list_all (\<lambda>(k, e). weight e = Some 1) d) sample_manifest"
  using weight_is_one [of _ "sample_analyze (files sample_recorded)" "''view.html''" None
      sample_view_entries sample_urlFromPath sample_analyze sample_recorded sample_manifest]
    sample_view sample_generate
  by simp

subsection \<open>A failed resolution aborts the build\<close>

lemma foldl_recordFile_fields:
  "config (foldl (recordFile f) this input) = config this \<and>
   outPath (foldl (recordFile f) this input) = outPath this \<and>
   basePath (foldl (recordFile f) this input) = basePath this"
  by (induction input arbitrary: this) (simp_all add: recordFile_def)

lemma generate_entry_fail:
  assumes "\<forall>imps. analyzer v \<noteq> Document imps"
  shows "\<exists>text. generatePushManifestEntryForUrl analyzer v ign
                  = Inl (Error (''Unable to get document '' @ v @ '': '' @ text)) \<and>
                (\<forall>m. analyzer v = Warning (Some m) \<longrightarrow> m \<noteq> [] \<longrightarrow> text = m)"
proof (cases "analyzer v")
  case (Document imps)
  with assms show ?thesis by simp
next
  case (Warning msg)
  then show ?thesis
    by (cases msg) (simp_all add: generatePushManifestEntryForUrl_def)
next
  case Undefined
  then show ?thesis
    by (simp add: generatePushManifestEntryForUrl_def)
qed

lemma generate_entry_error_any_ignore:
  "generatePushManifestEntryForUrl analyzer v ign = Inl e
     \<Longrightarrow> generatePushManifestEntryForUrl analyzer v ign' = Inl e"
  by (auto simp add: generatePushManifestEntryForUrl_def split: AnalyzedDocument.splits)

lemma addFragments_fail:
  "f \<in> set frs \<Longrightarrow> \<forall>imps. analyzer (toUrl f) \<noteq> Document imps
     \<Longrightarrow> \<exists>w e. w \<in> toUrl ` set frs \<and>
               addFragments analyzer toUrl ign frs pm = Inl e \<and>
               generatePushManifestEntryForUrl analyzer w None = Inl e"
proof (induction frs arbitrary: pm)
  case Nil
  then show ?case by simp
next
  case (Cons f' frs)
  show ?case
  proof (cases "generatePushManifestEntryForUrl analyzer (toUrl f') (Some ign)")
    case (Inl e)
    then have "generatePushManifestEntryForUrl analyzer (toUrl f') None = Inl e"
      by (rule generate_entry_error_any_ignore)
    with Inl show ?thesis
      by (intro exI [of _ "toUrl f'"] exI [of _ e]) simp
  next
    case (Inr c)
    then have "\<exists>imps. analyzer (toUrl f') = Document imps"
      by (auto simp add: generatePushManifestEntryForUrl_def split: AnalyzedDocument.splits)
    with Cons.prems have "f \<in> set frs"
      by auto
    then obtain w e where "w \<in> toUrl ` set frs"
      and "addFragments analyzer toUrl ign frs (obj_set (toUrl f') c pm) = Inl e"
      and "generatePushManifestEntryForUrl analyzer w None = Inl e"
      using Cons.IH Cons.prems(2) by blast
    with Inr show ?thesis
      by (intro exI [of _ w] exI [of _ e]) simp
  qed
qed

lemma rawPushManifest_fail:
  assumes "v = urlFromPath (root cfg) (or_else (shell cfg) (entrypoint cfg)) \<or>
           v \<in> urlFromPath (root cfg) ` set (fragments cfg)"
    and "\<forall>imps. analyzer v \<noteq> Document imps"
  shows "\<exists>w e. (w = urlFromPath (root cfg) (or_else (shell cfg) (entrypoint cfg)) \<or>
                 w \<in> urlFromPath (root cfg) ` set (fragments cfg)) \<and>
               rawPushManifest urlFromPath analyzer cfg = Inl e \<and>
               generatePushManifestEntryForUrl analyzer w None = Inl e"
proof -
  let ?s = "urlFromPath (root cfg) (or_else (shell cfg) (entrypoint cfg))"
  show ?thesis
  proof (cases "generatePushManifestEntryForUrl analyzer ?s None")
    case (Inl e)
    then have "rawPushManifest urlFromPath analyzer cfg = Inl e"
      by (simp add: rawPushManifest_def)
    with Inl show ?thesis by blast
  next
    case (Inr c)
    then have "\<exists>imps. analyzer ?s = Document imps"
      by (auto simp add: generatePushManifestEntryForUrl_def split: AnalyzedDocument.splits)
    with assms obtain f where f: "f \<in> set (fragments cfg)" and v: "v = urlFromPath (root cfg) f"
      by auto
    from f assms(2) obtain w e where "w \<in> urlFromPath (root cfg) ` set (fragments cfg)"
      and "addFragments analyzer (urlFromPath (root cfg)) (?s # map fst c) (fragments cfg)
             (obj_set ?s c []) = Inl e"
      and "generatePushManifestEntryForUrl analyzer w None = Inl e"
      unfolding v using addFragments_fail [of f "fragments cfg" analyzer "urlFromPath (root cfg)"]
      by blast
    with Inr show ?thesis
      by (intro exI [of _ w] exI [of _ e]) (simp add: rawPushManifest_def Let_def)
  qed
qed

text \<open>
  C4: if the analyzer has no document for a requested entry URL (the shell or entrypoint
  URL, or a fragment URL), resolving that URL fails with an error whose message contains
  the URL and the analyzer's message; the manifest generation then fails with the error of
  a failed resolution instead of returning a manifest, and the transform yields the input
  files and nothing else before it throws that error.
\<close>

theorem resolution_failure_is_fatal:
  assumes "this' = foldl (recordFile urlFromPath) this input"
    and "v = urlFromPath (root (config this)) (or_else (shell (config this)) (entrypoint (config this))) \<or>
         v \<in> urlFromPath (root (config this)) ` set (fragments (config this))"
    and "\<forall>imps. analyze (files this') v \<noteq> Document imps"
  shows "(\<exists>text. generatePushManifestEntryForUrl (analyze (files this')) v ign
                   = Inl (Error (''Unable to get document '' @ v @ '': '' @ text)) \<and>
                 (\<forall>m. analyze (files this') v = Warning (Some m) \<longrightarrow> m \<noteq> [] \<longrightarrow> text = m)) \<and>
         (\<exists>w e. generatePushManifestEntryForUrl (analyze (files this')) w None = Inl e \<and>
                 generatePushManifest urlFromPath analyze this' = Inl e \<and>
                 transformIter urlFromPath analyze this input = (input, Some e))"
proof
  show "\<exists>text. generatePushManifestEntryForUrl (analyze (files this')) v ign
                   = Inl (Error (''Unable to get document '' @ v @ '': '' @ text)) \<and>
                 (\<forall>m. analyze (files this') v = Warning (Some m) \<longrightarrow> m \<noteq> [] \<longrightarrow> text = m)"
    using assms(3) by (rule generate_entry_fail)
next
  have cfg: "config this' = config this"
    unfolding assms(1) by (simp add: foldl_recordFile_fields)
  from assms(2,3) obtain w e where
    e: "generatePushManifestEntryForUrl (analyze (files this')) w None = Inl e"
    and raw: "rawPushManifest urlFromPath (analyze (files this')) (config this) = Inl e"
    using rawPushManifest_fail [of v urlFromPath "config this" "analyze (files this')"]
    by blast
  from raw have g: "generatePushManifest urlFromPath analyze this' = Inl e"
    by (simp add: generatePushManifest_def cfg)
  then have "transformIter urlFromPath analyze this input = (input, Some e)"
    unfolding assms(1) by (simp add: transformIter_def)
  with e g show "\<exists>w e. generatePushManifestEntryForUrl (analyze (files this')) w None = Inl e \<and>
                 generatePushManifest urlFromPath analyze this' = Inl e \<and>
                 transformIter urlFromPath analyze this input = (input, Some e)"
    by blast
qed

theorem resolution_failure_is_fatal_witness:
  "(\<forall>imps. sample_analyze (files sample_partial) ''view.html'' \<noteq> Document imps) \<and>
   generatePushManifestEntryForUrl (sample_analyze (files sample_partial)) ''view.html''
     (Some [''shell.html'']) = Inl (Error ''Unable to get document view.html: not found'') \<and>
   (\<exists>w e. generatePushManifestEntryForUrl (sample_analyze (files sample_partial)) w None = Inl e \<and>
          generatePushManifest sample_urlFromPath sample_analyze sample_partial = Inl e \<and>
          transformIter sample_urlFromPath sample_analyze sample_stream (take 1 sample_files)
            = (take 1 sample_files, Some e))"
proof -
  have h1: "sample_partial
              = foldl (recordFile sample_urlFromPath) sample_stream (take 1 sample_files)"
    by (simp add: sample_partial_def)
  have h2: "''view.html'' = sample_urlFromPath (root (config sample_stream))
                (or_else (shell (config sample_stream)) (entrypoint (config sample_stream))) \<or>
            ''view.html'' \<in> sample_urlFromPath (root (config sample_stream))
                ` set (fragments (config sample_stream))"
    by (simp add: sample_stream_def new_AddPushManifest_def sample_config_def
        sample_urlFromPath_def)
  have d: "sample_analyze (files sample_partial) ''view.html'' = Warning (Some ''not found'')"
    by (simp add: sample_partial_eq sample_analyze_def)
  then have h3: "\<forall>imps. sample_analyze (files sample_partial) ''view.html'' \<noteq> Document imps"
    by simp
  show ?thesis
    using resolution_failure_is_fatal
      [where this' = sample_partial and urlFromPath = sample_urlFromPath
         and this = sample_stream and input = "take 1 sample_files" and v = "''view.html''"
         and analyze = sample_analyze and ign = "Some [''shell.html'']", OF h1 h2 h3]
      h3 d
    by auto
qed

subsection \<open>The emitted files\<close>

text \<open>
  C7, as amended: the transform yields every input file unchanged and in order; when the
  manifest generation succeeds, exactly one more file follows, at the path that joins the
  project root with the given output path (\<^verbatim>\<open>push-manifest.json\<close> by default), whose
  contents are the normalized manifest as indented JSON, and nothing is thrown; when the
  generation fails, nothing follows the input files and the error is thrown.
\<close>

theorem manifest_file_is_last:
  assumes "this = new_AddPushManifest cfg outPath' basePath'"
  shows "(rawPushManifest urlFromPath
            (analyze (files (foldl (recordFile urlFromPath) this input))) cfg = Inr pushManifest
          \<longrightarrow> transformIter urlFromPath analyze this input =
                (input @
                   [\<lparr>path = posix_join [root cfg, or_else outPath' ''push-manifest.json''],
                     contents = JSON_stringify
                                  (normalizeManifest (or_else basePath' []) pushManifest)\<rparr>],
                 None)) \<and>
         (rawPushManifest urlFromPath
            (analyze (files (foldl (recordFile urlFromPath) this input))) cfg = Inl e
          \<longrightarrow> transformIter urlFromPath analyze this input = (input, Some e))"
proof -
  let ?this' = "foldl (recordFile urlFromPath) this input"
  have "config ?this' = cfg"
    and "outPath ?this' = posix_join [root cfg, or_else outPath' ''push-manifest.json'']"
    and "basePath ?this' = or_else basePath' []"
    by (simp_all add: foldl_recordFile_fields assms new_AddPushManifest_def)
  then show ?thesis
    by (simp add: transformIter_def generatePushManifest_def)
qed

lemma sample_partial_raw:
  "rawPushManifest sample_urlFromPath (sample_analyze (files sample_partial)) sample_config
     = Inl (Error ''Unable to get document view.html: not found'')"
  by (simp add: rawPushManifest_def sample_config_def or_else_def sample_urlFromPath_def
      generatePushManifestEntryForUrl_def sample_partial_eq sample_analyze_def
      sample_imports_def addImport_def obj_eval shouldIgnoreFile_def
      createPushEntryFromImport_def getResourceTypeFromImport_def)

theorem manifest_file_is_last_witness:
  "transformIter sample_urlFromPath sample_analyze sample_stream sample_files =
     (sample_files @
        [\<lparr>path = ''/app/push-manifest.json'', contents = JSON_stringify sample_manifest\<rparr>],
      None) \<and>
   transformIter sample_urlFromPath sample_analyze sample_stream (take 1 sample_files) =
     (take 1 sample_files, Some (Error ''Unable to get document view.html: not found''))"
proof -
  have h: "sample_stream = new_AddPushManifest sample_config None None"
    by (simp add: sample_stream_def)
  have ok: "rawPushManifest sample_urlFromPath
     (sample_analyze (files (foldl (recordFile sample_urlFromPath) sample_stream sample_files)))
     sample_config = Inr sample_raw_manifest"
    using sample_raw by (simp add: sample_recorded_def)
  have failed: "rawPushManifest sample_urlFromPath
     (sample_analyze
        (files (foldl (recordFile sample_urlFromPath) sample_stream (take 1 sample_files))))
     sample_config = Inl (Error ''Unable to get document view.html: not found'')"
    using sample_partial_raw by (simp add: sample_partial_def)
  have p: "posix_join [root sample_config, or_else None ''push-manifest.json'']
             = ''/app/push-manifest.json''"
    by (simp add: sample_config_def or_else_def posix_join_def posix_normalize_def
        normalizeString_def)
  show ?thesis
    using manifest_file_is_last
      [where this = sample_stream and cfg = sample_config and outPath' = None
         and basePath' = None and urlFromPath = sample_urlFromPath
         and analyze = sample_analyze and input = sample_files
         and pushManifest = sample_raw_manifest, OF h]
      manifest_file_is_last
      [where this = sample_stream and cfg = sample_config and outPath' = None
         and basePath' = None and urlFromPath = sample_urlFromPath
         and analyze = sample_analyze and input = "take 1 sample_files"
         and e = "Error ''Unable to get document view.html: not found''", OF h]
      ok failed p
    by (simp add: sample_normalized or_else_def)
qed

text \<open>
  The claim as stated fails when the generation fails: here no file has arrived, the shell
  is not found, and the transform yields no manifest file.
\<close>

theorem manifest_file_counterexample:
  "transformIter sample_urlFromPath sample_analyze sample_stream []
     = ([], Some (Error ''Unable to get document shell.html: not found''))"
  by (simp add: transformIter_def generatePushManifest_def rawPushManifest_def
      generatePushManifestEntryForUrl_def sample_stream_def new_AddPushManifest_def
      sample_config_def sample_analyze_def sample_urlFromPath_def or_else_def)

subsection \<open>Duplicate imports\<close>

text \<open>
  C6, as amended: within one entry resolution, when import edges share a target URL that
  is not in the ignore list and is not the name of a member of \<^verbatim>\<open>Object.prototype\<close>, the
  resulting collection has exactly one entry for that URL, and the entry carries the
  classification of the first such edge (with weight 1); the resolution succeeds.
\<close>

theorem duplicate_imports_once:
  assumes "analyzer e = Document imps"
    and "find (\<lambda>j. url j = u) imps = Some i"
    and "\<not> shouldIgnoreFile ign u"
    and "u \<notin> set objectPrototypeKeys"
  shows "\<exists>c. generatePushManifestEntryForUrl analyzer e ign = Inr c \<and>
             count_list (map fst c) u = 1 \<and>
             map_of c u = Some \<lparr>type = getResourceTypeFromImport i, weight = Some 1\<rparr>"
proof -
  let ?c = "foldl (addImport ign) [] imps"
  have r: "generatePushManifestEntryForUrl analyzer e ign = Inr ?c"
    using assms(1) by (simp add: generatePushManifestEntryForUrl_def)
  have m: "map_of ?c u = Some (createPushEntryFromImport i)"
    using assms(2,3,4) by (simp add: foldl_addImport_map_of)
  then have "u \<in> set (map fst ?c)"
    by (metis map_of_eq_None_iff option.distinct(1) set_map)
  moreover have "distinct (map fst ?c)"
    by (rule foldl_addImport_distinct) simp
  ultimately have "count_list (map fst ?c) u = 1"
    by (simp add: count_list_distinct)
  with r m show ?thesis
    by (simp add: createPushEntryFromImport_def)
qed

theorem duplicate_imports_once_witness:
  "''b.js'' \<notin> set objectPrototypeKeys \<and>
   generatePushManifestEntryForUrl
     (\<lambda>_. Document [\<lparr>url = ''a.html'', kinds = {''html-import''}\<rparr>,
                     \<lparr>url = ''b.js'', kinds = {''html-script''}\<rparr>,
                     \<lparr>url = ''b.js'', kinds = {''css-import''}\<rparr>])
     ''index.html'' (Some [''a.html''])
     = Inr [(''b.js'', \<lparr>type = Some TScript, weight = Some 1\<rparr>)] \<and>
   count_list (map fst [(''b.js'', \<lparr>type = Some TScript, weight = Some (1::nat)\<rparr>)]) ''b.js'' = 1"
  using duplicate_imports_once
    [of "\<lambda>_. Document [\<lparr>url = ''a.html'', kinds = {''html-import''}\<rparr>,
                        \<lparr>url = ''b.js'', kinds = {''html-script''}\<rparr>,
                        \<lparr>url = ''b.js'', kinds = {''css-import''}\<rparr>]"
        "''index.html''" _ "''b.js''" "\<lparr>url = ''b.js'', kinds = {''html-script''}\<rparr>"
        "Some [''a.html'']"]
  by (simp add: generatePushManifestEntryForUrl_def addImport_def obj_eval shouldIgnoreFile_def
      createPushEntryFromImport_def getResourceTypeFromImport_def)

text \<open>
  The claim as stated fails for a URL in the ignore list: two edges share the URL and the
  collection has no entry for it.
\<close>

theorem duplicate_imports_counterexample:
  "generatePushManifestEntryForUrl
     (\<lambda>_. Document [\<lparr>url = ''a.css'', kinds = {''css-import''}\<rparr>,
                     \<lparr>url = ''a.css'', kinds = {''html-style''}\<rparr>])
     ''view.html'' (Some [''shell.html'', ''a.css'']) = Inr []"
  by (simp add: generatePushManifestEntryForUrl_def addImport_def shouldIgnoreFile_def)

text \<open>
  A URL that is the name of a member of \<^verbatim>\<open>Object.prototype\<close> is left out as well: the
  read \<^verbatim>\<open>pushManifestEntries[url]\<close> finds the inherited member.
\<close>

lemma inherited_name_gets_no_entry:
  "generatePushManifestEntryForUrl
     (\<lambda>_. Document [\<lparr>url = ''constructor'', kinds = {''html-import''}\<rparr>,
                     \<lparr>url = ''a.css'', kinds = {''css-import''}\<rparr>])
     ''index.html'' None
     = Inr [(''a.css'', \<lparr>type = Some TStyle, weight = Some 1\<rparr>)]"
  by (simp add: generatePushManifestEntryForUrl_def addImport_def obj_eval shouldIgnoreFile_def
      createPushEntryFromImport_def getResourceTypeFromImport_def)

subsection \<open>Normalization merges keys\<close>

lemma foldl_obj_set_merge:
  fixes f :: "string \<Rightarrow> string" and g :: "'v \<Rightarrow> 'w"
  defines "F xs \<equiv> foldl (\<lambda>acc (k, v). obj_set (f k) (g v) acc) [] xs"
  assumes "(k1, v1) \<in> set xs" and "(k2, v2) \<in> set xs" and "k1 \<noteq> k2"
    and "f k1 = s" and "f k2 = s" and "s \<noteq> ''__proto__''"
  shows "count_list (map fst (F xs)) s = 1 \<and>
         map_of (F xs) s = Some (g (snd (last (filter (\<lambda>(k, v). f k = s) xs)))) \<and>
         length (F xs) < length xs"
proof (intro conjI)
  have d: "distinct (map fst (F xs))"
    unfolding F_def by (rule foldl_obj_set_distinct) simp
  have keys: "fst ` set (F xs) = f ` fst ` set xs - {''__proto__''}"
    unfolding F_def by (simp add: foldl_obj_set_keys)
  have k1: "k1 \<in> fst ` set xs" and k2: "k2 \<in> fst ` set xs"
    using assms(2,3) by force+
  then have "s \<in> set (map fst (F xs))"
    using keys assms(5,7) by auto
  with d show "count_list (map fst (F xs)) s = 1"
    by (simp add: count_list_distinct)
  have "filter (\<lambda>(k, v). f k = s) xs \<noteq> []"
    using assms(2,5) by (auto simp add: filter_empty_conv)
  then have "map_of (rev (map (\<lambda>(k, v). (f k, g v)) xs)) s
               = Some (g (snd (last (filter (\<lambda>(k, v). f k = s) xs))))"
    by (rule map_of_rev_last)
  then show "map_of (F xs) s = Some (g (snd (last (filter (\<lambda>(k, v). f k = s) xs))))"
    unfolding F_def using assms(7) by (simp add: foldl_obj_set_map_of)
  have "length (F xs) = card (set (map fst (F xs)))"
    using distinct_card [OF d] by simp
  also have "\<dots> \<le> card (f ` fst ` set xs)"
    using keys by (simp add: card_mono)
  also have "\<dots> < card (fst ` set xs)"
  proof -
    have "\<not> inj_on f (fst ` set xs)"
    proof
      assume inj: "inj_on f (fst ` set xs)"
      have "f k1 = f k2"
        using assms(5,6) by simp
      with inj have "k1 = k2"
        using k1 k2 by (rule inj_onD)
      with assms(4) show False by simp
    qed
    then have "card (f ` fst ` set xs) \<noteq> card (fst ` set xs)"
      using eq_card_imp_inj_on [of "fst ` set xs" f] by auto
    moreover have "card (f ` fst ` set xs) \<le> card (fst ` set xs)"
      by (simp add: card_image_le)
    ultimately show ?thesis by simp
  qed
  also have "\<dots> \<le> length xs"
    using card_length [of "map fst xs"] by simp
  finally show "length (F xs) < length xs" .
qed

text \<open>
  Two distinct URLs of a collection, or of a manifest, that normalize to the same string
  other than \<^verbatim>\<open>__proto__\<close> leave exactly one entry under that string; it holds the value
  of the one that \<^verbatim>\<open>Object.keys\<close> lists last, and the output has fewer keys than the input.
\<close>

lemma normalization_merges_other_keys:
  "((k1, e1) \<in> set entries \<and> (k2, e2) \<in> set entries \<and> k1 \<noteq> k2 \<and>
    normalizeUrl base k1 = s \<and> normalizeUrl base k2 = s \<and> s \<noteq> ''__proto__''
    \<longrightarrow> count_list (map fst (normalizeTargets base entries)) s = 1 \<and>
        map_of (normalizeTargets base entries) s
          = Some (snd (last (filter (\<lambda>(k, e). normalizeUrl base k = s) entries))) \<and>
        length (normalizeTargets base entries) < length entries) \<and>
   ((k1, c1) \<in> set pushManifest \<and> (k2, c2) \<in> set pushManifest \<and> k1 \<noteq> k2 \<and>
    normalizeUrl base k1 = s \<and> normalizeUrl base k2 = s \<and> s \<noteq> ''__proto__''
    \<longrightarrow> count_list (map fst (normalizeManifest base pushManifest)) s = 1 \<and>
        map_of (normalizeManifest base pushManifest) s
          = Some (normalizeTargets base
                    (snd (last (filter (\<lambda>(k, c). normalizeUrl base k = s) pushManifest)))) \<and>
        length (normalizeManifest base pushManifest) < length pushManifest)"
proof (rule conjI)
  show "(k1, e1) \<in> set entries \<and> (k2, e2) \<in> set entries \<and> k1 \<noteq> k2 \<and>
    normalizeUrl base k1 = s \<and> normalizeUrl base k2 = s \<and> s \<noteq> ''__proto__''
    \<longrightarrow> count_list (map fst (normalizeTargets base entries)) s = 1 \<and>
        map_of (normalizeTargets base entries) s
          = Some (snd (last (filter (\<lambda>(k, e). normalizeUrl base k = s) entries))) \<and>
        length (normalizeTargets base entries) < length entries"
    unfolding normalizeTargets_def
    using foldl_obj_set_merge [of k1 e1 entries k2 e2 "normalizeUrl base" s "\<lambda>e. e"]
    by simp
next
  show "(k1, c1) \<in> set pushManifest \<and> (k2, c2) \<in> set pushManifest \<and> k1 \<noteq> k2 \<and>
    normalizeUrl base k1 = s \<and> normalizeUrl base k2 = s \<and> s \<noteq> ''__proto__''
    \<longrightarrow> count_list (map fst (normalizeManifest base pushManifest)) s = 1 \<and>
        map_of (normalizeManifest base pushManifest) s
          = Some (normalizeTargets base
                    (snd (last (filter (\<lambda>(k, c). normalizeUrl base k = s) pushManifest)))) \<and>
        length (normalizeManifest base pushManifest) < length pushManifest"
    unfolding normalizeManifest_def
    using foldl_obj_set_merge [of k1 c1 pushManifest k2 c2 "normalizeUrl base" s
        "normalizeTargets base"]
    by simp
qed

lemma merge_normalizeUrl:
  "normalizeUrl [] ''/a.css'' = ''a.css''"
  "normalizeUrl [] ''a.css'' = ''a.css''"
  "normalizeUrl [] ''/1'' = ''1''"
  "normalizeUrl [] ''1'' = ''1''"
  "normalizeUrl [] ''/__proto__'' = ''__proto__''"
  "normalizeUrl [] ''./__proto__'' = ''__proto__''"
  by (simp_all add: normalizeUrl_def posix_join_def posix_normalize_def normalizeString_def)

text \<open>
  The imports \<^verbatim>\<open>/a.css\<close> and \<^verbatim>\<open>a.css\<close> end up in one entry, that of the second. The
  imports \<^verbatim>\<open>/1\<close> and \<^verbatim>\<open>1\<close> end up in the entry of the first, since \<^verbatim>\<open>Object.keys\<close>
  lists the array index \<^verbatim>\<open>1\<close> before \<^verbatim>\<open>/1\<close>.
\<close>

lemma merged_imports:
  "generatePushManifestEntryForUrl
     (\<lambda>_. Document [\<lparr>url = ''/a.css'', kinds = {''css-import''}\<rparr>,
                     \<lparr>url = ''a.css'', kinds = {''html-import''}\<rparr>])
     ''index.html'' None
     = Inr [(''/a.css'', \<lparr>type = Some TStyle, weight = Some 1\<rparr>),
            (''a.css'', \<lparr>type = Some TDocument, weight = Some 1\<rparr>)]"
  "normalizeTargets []
     [(''/a.css'', \<lparr>type = Some TStyle, weight = Some 1\<rparr>),
      (''a.css'', \<lparr>type = Some TDocument, weight = Some 1\<rparr>)]
     = [(''a.css'', \<lparr>type = Some TDocument, weight = Some 1\<rparr>)]"
  by (simp_all add: generatePushManifestEntryForUrl_def addImport_def obj_eval
      shouldIgnoreFile_def createPushEntryFromImport_def getResourceTypeFromImport_def
      normalizeTargets_def merge_normalizeUrl obj_replace.simps)

lemma array_index_one: "array_index ''1'' = Some 1"
  by (simp add: array_index_def is_digit_def index_value_def)

lemma merged_index_imports:
  "generatePushManifestEntryForUrl
     (\<lambda>_. Document [\<lparr>url = ''/1'', kinds = {''css-import''}\<rparr>,
                     \<lparr>url = ''1'', kinds = {''html-import''}\<rparr>])
     ''index.html'' None
     = Inr [(''1'', \<lparr>type = Some TDocument, weight = Some 1\<rparr>),
            (''/1'', \<lparr>type = Some TStyle, weight = Some 1\<rparr>)]"
  "normalizeTargets []
     [(''1'', \<lparr>type = Some TDocument, weight = Some 1\<rparr>),
      (''/1'', \<lparr>type = Some TStyle, weight = Some 1\<rparr>)]
     = [(''1'', \<lparr>type = Some TStyle, weight = Some 1\<rparr>)]"
  by (simp_all add: generatePushManifestEntryForUrl_def addImport_def obj_eval
      shouldIgnoreFile_def createPushEntryFromImport_def getResourceTypeFromImport_def
      normalizeTargets_def merge_normalizeUrl obj_replace.simps obj_create.simps
      enumerated_before_def array_index_one array_index_no_digit)

text \<open>
  C9 fails on the code for the string \<^verbatim>\<open>__proto__\<close>: the imports \<^verbatim>\<open>/__proto__\<close> and
  \<^verbatim>\<open>./__proto__\<close> are two distinct URLs of the collection, both normalize to
  \<^verbatim>\<open>__proto__\<close>, and the normalized collection has no entry under that string.
\<close>

theorem normalization_drops_proto:
  "generatePushManifestEntryForUrl
     (\<lambda>_. Document [\<lparr>url = ''/__proto__'', kinds = {''css-import''}\<rparr>,
                     \<lparr>url = ''./__proto__'', kinds = {''html-import''}\<rparr>])
     ''index.html'' None
     = Inr [(''/__proto__'', \<lparr>type = Some TStyle, weight = Some 1\<rparr>),
            (''./__proto__'', \<lparr>type = Some TDocument, weight = Some 1\<rparr>)] \<and>
   normalizeUrl [] ''/__proto__'' = ''__proto__'' \<and>
   normalizeUrl [] ''./__proto__'' = ''__proto__'' \<and>
   normalizeTargets []
     [(''/__proto__'', \<lparr>type = Some TStyle, weight = Some 1\<rparr>),
      (''./__proto__'', \<lparr>type = Some TDocument, weight = Some 1\<rparr>)]
     = []"
  by (simp add: generatePushManifestEntryForUrl_def addImport_def obj_eval
      shouldIgnoreFile_def createPushEntryFromImport_def getResourceTypeFromImport_def
      normalizeTargets_def merge_normalizeUrl)

subsection \<open>Normalization is idempotent for an empty base path\<close>

declare normalize_step.simps [simp del]

lemma split_slash_nonempty: "split_slash p \<noteq> []"
  by (induction p) (auto split: list.splits)

lemma split_slash_no_slash: "s \<in> set (split_slash p) \<Longrightarrow> CHR ''/'' \<notin> set s"
proof (induction p arbitrary: s)
  case Nil
  then show ?case by simp
next
  case (Cons c cs)
  then show ?case
    by (auto split: if_splits list.splits)
qed

lemma split_slash_append:
  "split_slash (xs @ CHR ''/'' # ys) = split_slash xs @ split_slash ys"
proof (induction xs)
  case Nil
  then show ?case by simp
next
  case (Cons c cs)
  then show ?case
    using split_slash_nonempty [of cs] by (auto split: list.splits)
qed

lemma split_slash_plain: "CHR ''/'' \<notin> set s \<Longrightarrow> split_slash s = [s]"
  by (induction s) auto

lemma split_join_slash:
  "L \<noteq> [] \<Longrightarrow> \<forall>s \<in> set L. CHR ''/'' \<notin> set s \<Longrightarrow> split_slash (join_slash L) = L"
proof (induction L rule: join_slash.induct)
  case 1
  then show ?case by simp
next
  case (2 s)
  then show ?case by (simp add: split_slash_plain)
next
  case (3 s t ss)
  then show ?case
    by (simp add: split_slash_append split_slash_plain)
qed

lemma all_dots_good: "list_all (\<lambda>s. s = ''..'') rs \<Longrightarrow> good_stack rs"
  by (induction rs) auto

lemma good_stack_tl: "good_stack (r # rs) \<Longrightarrow> good_stack rs"
  by (auto simp add: all_dots_good split: if_splits)

lemma normalize_step_good:
  assumes "good_stack res" and "CHR ''/'' \<notin> set seg"
  shows "good_stack (normalize_step a res seg)"
proof (cases "seg = [] \<or> seg = ''.''")
  case True
  then show ?thesis using assms by (auto simp add: normalize_step.simps)
next
  case False
  show ?thesis
  proof (cases "seg = ''..''")
    case True
    then show ?thesis
      using assms(1)
      by (cases res) (auto simp add: normalize_step.simps all_dots_good split: if_splits)
  next
    case ndd: False
    with False assms(2) have "plain seg"
      by (simp add: plain_def)
    with False ndd assms(1) show ?thesis
      by (simp add: normalize_step.simps)
  qed
qed

lemma foldl_normalize_step_good:
  "good_stack acc \<Longrightarrow> \<forall>s \<in> set segs. CHR ''/'' \<notin> set s
     \<Longrightarrow> good_stack (foldl (normalize_step a) acc segs)"
proof (induction segs arbitrary: acc)
  case Nil
  then show ?case by simp
next
  case (Cons seg segs)
  from Cons.prems have "good_stack (normalize_step a acc seg)"
    by (simp add: normalize_step_good)
  moreover from Cons.prems have "\<forall>s \<in> set segs. CHR ''/'' \<notin> set s"
    by simp
  ultimately have "good_stack (foldl (normalize_step a) (normalize_step a acc seg) segs)"
    by (rule Cons.IH)
  then show ?case by simp
qed

lemma good_stack_replay:
  "good_stack res \<Longrightarrow> foldl (normalize_step True) [] (rev res) = res"
proof (induction res)
  case Nil
  then show ?case by simp
next
  case (Cons r rs)
  from Cons.prems have "good_stack rs"
    by (rule good_stack_tl)
  then have ih: "foldl (normalize_step True) [] (rev rs) = rs"
    by (rule Cons.IH)
  have "normalize_step True rs r = r # rs"
  proof (cases "r = ''..''")
    case True
    with Cons.prems show ?thesis
      by (cases rs) (auto simp add: normalize_step.simps)
  next
    case False
    with Cons.prems show ?thesis
      by (auto simp add: normalize_step.simps plain_def)
  qed
  with ih show ?case by simp
qed

lemma good_stack_elems:
  "good_stack res \<Longrightarrow> s \<in> set res \<Longrightarrow> s \<noteq> [] \<and> CHR ''/'' \<notin> set s"
proof (induction res)
  case Nil
  then show ?case by simp
next
  case (Cons r rs)
  show ?case
  proof (cases "r = ''..''")
    case True
    with Cons.prems have "s = ''..''"
      by (auto simp add: list_all_iff)
    then show ?thesis by simp
  next
    case False
    with Cons.prems Cons.IH show ?thesis
      by (auto simp add: plain_def)
  qed
qed

lemma join_slash_Cons:
  "join_slash (s # ss) = (if ss = [] then s else s @ CHR ''/'' # join_slash ss)"
  by (cases ss) simp_all

lemma join_slash_snoc:
  "join_slash (ss @ [s]) = (if ss = [] then s else join_slash ss @ CHR ''/'' # s)"
  by (induction ss rule: join_slash.induct) simp_all

lemma join_slash_hd:
  "L \<noteq> [] \<Longrightarrow> hd L \<noteq> [] \<Longrightarrow> join_slash L \<noteq> [] \<and> hd (join_slash L) = hd (hd L)"
  by (cases L) (auto simp add: join_slash_Cons)

lemma join_slash_last:
  "L \<noteq> [] \<Longrightarrow> last L \<noteq> [] \<Longrightarrow> last (join_slash L) = last (last L)"
  by (cases L rule: rev_cases) (auto simp add: join_slash_snoc)

lemma foldl_normalize_step_empty_segment:
  "foldl (normalize_step a) acc (segs @ [[]]) = foldl (normalize_step a) acc segs"
  by (simp add: normalize_step.simps)

lemma normal_form_fixed:
  assumes "good_stack st" and "st \<noteq> []"
  defines "q \<equiv> join_slash (rev st)"
  shows "q \<noteq> []" and "hd q \<noteq> CHR ''/''"
    and "posix_normalize q = q" and "posix_normalize (q @ ''/'') = q @ ''/''"
proof -
  have elems: "\<forall>s \<in> set (rev st). s \<noteq> [] \<and> CHR ''/'' \<notin> set s"
    using good_stack_elems [OF assms(1)] by simp
  have ne: "rev st \<noteq> []"
    using assms(2) by simp
  have h: "hd (rev st) \<in> set (rev st)" and l: "last (rev st) \<in> set (rev st)"
    using ne by (simp_all del: set_rev)
  from h elems have hd_ok: "hd (rev st) \<noteq> []" "CHR ''/'' \<notin> set (hd (rev st))"
    by blast+
  from l elems have last_ok: "last (rev st) \<noteq> []" "CHR ''/'' \<notin> set (last (rev st))"
    by blast+
  show q_ne: "q \<noteq> []"
    unfolding q_def using join_slash_hd [OF ne hd_ok(1)] by simp
  have "hd q = hd (hd (rev st))"
    unfolding q_def using join_slash_hd [OF ne hd_ok(1)] by simp
  moreover have "hd (hd (rev st)) \<in> set (hd (rev st))"
    using hd_ok(1) by simp
  ultimately show hd_q: "hd q \<noteq> CHR ''/''"
    using hd_ok(2) by auto
  have "last q = last (last (rev st))"
    unfolding q_def using join_slash_last [OF ne last_ok(1)] by simp
  moreover have "last (last (rev st)) \<in> set (last (rev st))"
    using last_ok(1) by simp
  ultimately have last_q: "last q \<noteq> CHR ''/''"
    using last_ok(2) by auto
  have split: "split_slash q = rev st"
    unfolding q_def using ne elems by (simp add: split_join_slash)
  have replay: "foldl (normalize_step True) [] (rev st) = st"
    using assms(1) by (rule good_stack_replay)
  have ns: "normalizeString q True = q"
    using split replay by (simp add: normalizeString_def q_def)
  show "posix_normalize q = q"
    using q_ne hd_q last_q by (simp add: posix_normalize_def ns)
  have "split_slash (q @ ''/'') = rev st @ [[]]"
    using split_slash_append [of q "[]"] split by simp
  then have ns': "normalizeString (q @ ''/'') True = q"
    using replay
    by (simp add: normalizeString_def normalize_step.simps q_def)
  have "hd (q @ ''/'') \<noteq> CHR ''/''"
    using q_ne hd_q by simp
  then show "posix_normalize (q @ ''/'') = q @ ''/''"
    using q_ne by (simp add: posix_normalize_def ns')
qed

lemma posix_normalize_shape:
  assumes "p \<noteq> []"
  shows "posix_normalize p \<in> {''/'', ''.'', ''./''} \<or>
         (\<exists>st. good_stack st \<and> st \<noteq> [] \<and>
            posix_normalize p \<in>
              {join_slash (rev st), join_slash (rev st) @ ''/'',
               CHR ''/'' # join_slash (rev st), CHR ''/'' # join_slash (rev st) @ ''/''})"
proof -
  let ?st = "foldl (normalize_step (hd p \<noteq> CHR ''/'')) [] (split_slash p)"
  have good: "good_stack ?st"
    by (rule foldl_normalize_step_good) (simp_all add: split_slash_no_slash)
  show ?thesis
  proof (cases "?st = []")
    case True
    then have "normalizeString p (hd p \<noteq> CHR ''/'') = []"
      by (simp add: normalizeString_def)
    then show ?thesis
      using assms by (simp add: posix_normalize_def)
  next
    case False
    then have "join_slash (rev ?st) \<noteq> []"
      using normal_form_fixed(1) [OF good] by simp
    then have "posix_normalize p \<in>
              {join_slash (rev ?st), join_slash (rev ?st) @ ''/'',
               CHR ''/'' # join_slash (rev ?st), CHR ''/'' # join_slash (rev ?st) @ ''/''}"
      using assms by (simp add: posix_normalize_def normalizeString_def Let_def)
    with good False show ?thesis by blast
  qed
qed

lemma posix_join_empty_base:
  "posix_join [[], p] = (if p = [] then ''.'' else posix_normalize p)"
  by (simp add: posix_join_def)

lemma posix_normalize_nonempty: "posix_normalize p \<noteq> []"
  by (simp add: posix_normalize_def Let_def)

lemma normalizeUrl_fixed:
  assumes "normalizeUrl [] p = q" and "q \<noteq> []"
  shows "normalizeUrl [] q = q"
proof (cases "p = []")
  case True
  with assms(1) have "q = ''.''"
    by (simp add: normalizeUrl_def posix_join_def)
  then show ?thesis
    by (simp add: normalizeUrl_def posix_join_def posix_normalize_def normalizeString_def
        normalize_step.simps)
next
  case False
  then have q: "q = dropWhile (\<lambda>c. c = CHR ''/'') (posix_normalize p)"
    using assms(1) by (simp add: normalizeUrl_def posix_join_empty_base)
  from posix_normalize_shape [OF False]
  consider (special) "posix_normalize p \<in> {''/'', ''.'', ''./''}"
    | (general) st where "good_stack st" "st \<noteq> []"
        "posix_normalize p \<in>
              {join_slash (rev st), join_slash (rev st) @ ''/'',
               CHR ''/'' # join_slash (rev st), CHR ''/'' # join_slash (rev st) @ ''/''}"
    by blast
  then show ?thesis
  proof cases
    case special
    with q assms(2) have "q = ''.'' \<or> q = ''./''"
      by auto
    then show ?thesis
      by (auto simp add: normalizeUrl_def posix_join_def posix_normalize_def
          normalizeString_def normalize_step.simps)
  next
    case general
    let ?r = "join_slash (rev st)"
    note nf = normal_form_fixed [OF general(1,2)]
    have drop: "dropWhile (\<lambda>c. c = CHR ''/'') ?r = ?r"
      "dropWhile (\<lambda>c. c = CHR ''/'') (?r @ ''/'') = ?r @ ''/''"
      using nf(1,2) by (cases ?r; simp)+
    from general(3) q drop have "q = ?r \<or> q = ?r @ ''/''"
      by auto
    then show ?thesis
      using nf drop by (auto simp add: normalizeUrl_def posix_join_empty_base)
  qed
qed

lemma js_object_prefix: "js_object (xs @ ys) \<Longrightarrow> js_object xs"
  by (auto simp add: js_object_def sorted_wrt_append)

lemma js_object_empty: "js_object []"
  by (simp add: js_object_def)

lemma foldl_obj_set_fixed:
  "js_object (acc @ xs) \<Longrightarrow> \<forall>(k, v) \<in> set xs. f k = k \<and> g v = v
     \<Longrightarrow> foldl (\<lambda>acc (k, v). obj_set (f k) (g v) acc) acc xs = acc @ xs"
proof (induction xs arbitrary: acc)
  case Nil
  then show ?case by simp
next
  case (Cons x xs)
  obtain k v where x: "x = (k, v)" by (cases x)
  from Cons.prems(2) have fx: "f k = k" "g v = v"
    by (simp_all add: x)
  from Cons.prems(1) have "js_object ((acc @ [(k, v)]) @ xs)"
    by (simp add: x)
  then have "js_object (acc @ [(k, v)])"
    by (rule js_object_prefix)
  then have upd: "obj_set (f k) (g v) acc = acc @ [(k, v)]"
    by (simp add: fx obj_set_last)
  have "foldl (\<lambda>acc (k, v). obj_set (f k) (g v) acc) (acc @ [(k, v)]) xs
          = (acc @ [(k, v)]) @ xs"
  proof (rule Cons.IH)
    show "js_object ((acc @ [(k, v)]) @ xs)"
      using Cons.prems(1) by (simp add: x)
    show "\<forall>(k, v) \<in> set xs. f k = k \<and> g v = v"
      using Cons.prems(2) by simp
  qed
  then show ?case
    by (simp add: x upd)
qed

lemma dropWhile_slash_not_leading:
  "dropWhile (\<lambda>c. c = CHR ''/'') xs \<noteq> CHR ''/'' # t"
  by (induction xs) auto

lemma normalizeUrl_not_leading: "normalizeUrl base p \<noteq> CHR ''/'' # t"
  by (simp add: normalizeUrl_def dropWhile_slash_not_leading)

lemma normalizeTargets_keys:
  "fst ` set (normalizeTargets base entries)
     = normalizeUrl base ` fst ` set entries - {''__proto__''}"
  unfolding normalizeTargets_def
  using foldl_obj_set_keys [of "normalizeUrl base" "\<lambda>e. e" "[]" entries] by simp

lemma normalizeManifest_keys:
  "fst ` set (normalizeManifest base m) = normalizeUrl base ` fst ` set m - {''__proto__''}"
  unfolding normalizeManifest_def
  using foldl_obj_set_keys [of "normalizeUrl base" "normalizeTargets base" "[]" m] by simp

lemma normalizeManifest_values:
  assumes "(k, c) \<in> set (normalizeManifest base m)"
  shows "\<exists>k0 c0. (k0, c0) \<in> set m \<and> c = normalizeTargets base c0"
  using assms unfolding normalizeManifest_def
  using foldl_obj_set_values [of k c "normalizeUrl base" "normalizeTargets base" "[]" m]
  by simp

lemma normalizeTargets_js_object: "js_object (normalizeTargets base entries)"
  unfolding normalizeTargets_def by (rule foldl_obj_set_js_object) (rule js_object_empty)

lemma normalizeManifest_js_object: "js_object (normalizeManifest base m)"
  unfolding normalizeManifest_def by (rule foldl_obj_set_js_object) (rule js_object_empty)

lemma normalizeTargets_distinct: "distinct (map fst (normalizeTargets base entries))"
  using normalizeTargets_js_object [of base entries] by (simp add: js_object_def)

lemma normalizeManifest_distinct: "distinct (map fst (normalizeManifest base m))"
  using normalizeManifest_js_object [of base m] by (simp add: js_object_def)

lemma normalizeTargets_fixed:
  assumes "\<forall>(u, e) \<in> set (normalizeTargets [] entries). u \<noteq> []"
  shows "normalizeTargets [] (normalizeTargets [] entries) = normalizeTargets [] entries"
proof -
  let ?n = "normalizeTargets [] entries"
  have "\<forall>(u, e) \<in> set ?n. normalizeUrl [] u = u \<and> e = e"
  proof (clarify, rule conjI)
    fix u e
    assume ue: "(u, e) \<in> set ?n"
    then have "u \<in> fst ` set ?n" by force
    then obtain u0 where "normalizeUrl [] u0 = u"
      unfolding normalizeTargets_keys by auto
    moreover from ue assms have "u \<noteq> []" by auto
    ultimately show "normalizeUrl [] u = u"
      by (rule normalizeUrl_fixed)
  qed simp
  moreover have "js_object ([] @ ?n)"
    by (simp add: normalizeTargets_js_object)
  ultimately have "foldl (\<lambda>acc (k, v). obj_set (normalizeUrl [] k) v acc) [] ?n = [] @ ?n"
    using foldl_obj_set_fixed [of "[]" ?n "normalizeUrl []" "\<lambda>e. e"] by simp
  then show ?thesis
    by (simp add: normalizeTargets_def)
qed

text \<open>
  C2, as amended: for every manifest and every base path, no key and no dependency URL of
  the normalized manifest begins with \<^verbatim>\<open>/\<close>; and with an empty base path,
  normalizing a normalized manifest again changes nothing, provided the normalized manifest
  has no empty key and no empty dependency URL (a URL normalizes to the empty string only
  when it denotes the root, as \<^verbatim>\<open>/\<close> does).
\<close>

theorem normalize_idempotent_empty_base:
  "(\<forall>(k, c) \<in> set (normalizeManifest base m).
      (\<forall>t. k \<noteq> CHR ''/'' # t) \<and> (\<forall>(u, e) \<in> set c. \<forall>t. u \<noteq> CHR ''/'' # t)) \<and>
   ((\<forall>(k, c) \<in> set (normalizeManifest [] m). k \<noteq> [] \<and> (\<forall>(u, e) \<in> set c. u \<noteq> []))
      \<longrightarrow> normalizeManifest [] (normalizeManifest [] m) = normalizeManifest [] m)"
proof (rule conjI)
  show "\<forall>(k, c) \<in> set (normalizeManifest base m).
      (\<forall>t. k \<noteq> CHR ''/'' # t) \<and> (\<forall>(u, e) \<in> set c. \<forall>t. u \<noteq> CHR ''/'' # t)"
  proof (clarify, rule conjI)
    fix k c
    assume kc: "(k, c) \<in> set (normalizeManifest base m)"
    then have "k \<in> fst ` set (normalizeManifest base m)" by force
    then obtain k0 where "k = normalizeUrl base k0"
      unfolding normalizeManifest_keys by auto
    then show "\<forall>t. k \<noteq> CHR ''/'' # t"
      by (simp add: normalizeUrl_not_leading)
    from kc obtain c0 where c: "c = normalizeTargets base c0"
      using normalizeManifest_values by blast
    show "\<forall>(u, e) \<in> set c. \<forall>t. u \<noteq> CHR ''/'' # t"
    proof -
      have "\<forall>u \<in> fst ` set c. \<forall>t. u \<noteq> CHR ''/'' # t"
        unfolding c normalizeTargets_keys by (auto simp add: normalizeUrl_not_leading)
      then show ?thesis by force
    qed
  qed
next
  show "(\<forall>(k, c) \<in> set (normalizeManifest [] m). k \<noteq> [] \<and> (\<forall>(u, e) \<in> set c. u \<noteq> []))
      \<longrightarrow> normalizeManifest [] (normalizeManifest [] m) = normalizeManifest [] m"
  proof
    let ?n = "normalizeManifest [] m"
    assume ne: "\<forall>(k, c) \<in> set ?n. k \<noteq> [] \<and> (\<forall>(u, e) \<in> set c. u \<noteq> [])"
    have "\<forall>(k, c) \<in> set ?n. normalizeUrl [] k = k \<and> normalizeTargets [] c = c"
    proof (clarify, rule conjI)
      fix k c
      assume kc: "(k, c) \<in> set ?n"
      then have "k \<in> fst ` set ?n" by force
      then obtain k0 where "normalizeUrl [] k0 = k"
        unfolding normalizeManifest_keys by auto
      moreover from kc ne have "k \<noteq> []" by auto
      ultimately show "normalizeUrl [] k = k"
        by (rule normalizeUrl_fixed)
      from kc obtain c0 where c: "c = normalizeTargets [] c0"
        using normalizeManifest_values by blast
      from kc ne have "\<forall>(u, e) \<in> set c. u \<noteq> []" by auto
      then show "normalizeTargets [] c = c"
        unfolding c by (rule normalizeTargets_fixed)
    qed
    moreover have "js_object ([] @ ?n)"
      by (simp add: normalizeManifest_js_object)
    ultimately have
      "foldl (\<lambda>acc (k, v). obj_set (normalizeUrl [] k) (normalizeTargets [] v) acc) [] ?n
         = [] @ ?n"
      using foldl_obj_set_fixed [of "[]" ?n "normalizeUrl []" "normalizeTargets []"] by simp
    then show "normalizeManifest [] ?n = ?n"
      by (simp add: normalizeManifest_def)
  qed
qed

theorem normalize_idempotent_empty_base_witness:
  "normalizeManifest [] sample_raw_manifest = sample_manifest \<and>
   list_all (\<lambda>(k, c). k \<noteq> [] \<and> list_all (\<lambda>(u, e). u \<noteq> []) c) sample_manifest \<and>
   normalizeManifest [] sample_manifest = sample_manifest"
  using normalize_idempotent_empty_base [of "[]" sample_raw_manifest] sample_normalized
  by (simp add: sample_manifest_def)

text \<open>
  The side condition is needed: \<^verbatim>\<open>/\<close> normalizes to the empty string, and the empty
  string to \<^verbatim>\<open>.\<close>.
\<close>

lemma root_url_not_fixed:
  "normalizeManifest [] (normalizeManifest [] [(''/'', [])]) \<noteq> normalizeManifest [] [(''/'', [])]"
  by (simp add: normalizeManifest_def normalizeTargets_def normalizeUrl_def posix_join_def
      posix_normalize_def normalizeString_def normalize_step.simps obj_eval obj_create.simps
      enumerated_before_def array_index_def)

text \<open>
  The claim as stated fails for a base path that is not empty: the base is prepended
  again.
\<close>

theorem normalize_idempotent_counterexample:
  "normalizeManifest ''static'' (normalizeManifest ''static'' [(''index.html'', [])])
     \<noteq> normalizeManifest ''static'' [(''index.html'', [])]"
  by (simp add: normalizeManifest_def normalizeTargets_def normalizeUrl_def posix_join_def
      posix_normalize_def normalizeString_def normalize_step.simps obj_eval)

subsection \<open>Fragments leave out what the shell covers\<close>

lemma generate_entry_Document:
  "analyzer u = Document imps
     \<Longrightarrow> generatePushManifestEntryForUrl analyzer u ign = Inr (foldl (addImport ign) [] imps)"
  by (simp add: generatePushManifestEntryForUrl_def)

lemma foldl_addImport_keys:
  "fst ` set (foldl (addImport ign) [] imps)
     = {u \<in> url ` set imps. \<not> shouldIgnoreFile ign u \<and> u \<notin> set objectPrototypeKeys}"
proof (rule set_eqI)
  fix u
  let ?c = "foldl (addImport ign) [] imps"
  have "u \<in> fst ` set ?c \<longleftrightarrow> map_of ?c u \<noteq> None"
    by (simp add: map_of_eq_None_iff)
  also have "\<dots> \<longleftrightarrow> \<not> shouldIgnoreFile ign u \<and> u \<notin> set objectPrototypeKeys \<and>
                      find (\<lambda>j. url j = u) imps \<noteq> None"
    by (simp add: foldl_addImport_map_of)
  also have "\<dots> \<longleftrightarrow> \<not> shouldIgnoreFile ign u \<and> u \<notin> set objectPrototypeKeys \<and>
                      u \<in> url ` set imps"
    by (auto simp add: find_None_iff)
  finally show "u \<in> fst ` set ?c \<longleftrightarrow>
      u \<in> {u \<in> url ` set imps. \<not> shouldIgnoreFile ign u \<and> u \<notin> set objectPrototypeKeys}"
    by auto
qed

lemma addFragments_Documents:
  "\<forall>f \<in> set frs. analyzer (toUrl f) = Document (importsOf (toUrl f))
     \<Longrightarrow> addFragments analyzer toUrl ign frs pm
           = Inr (foldl (\<lambda>pm f. obj_set (toUrl f)
                                  (foldl (addImport (Some ign)) [] (importsOf (toUrl f))) pm)
                    pm frs)"
proof (induction frs arbitrary: pm)
  case Nil
  then show ?case by simp
next
  case (Cons f frs)
  then show ?case
    by (simp add: generate_entry_Document Let_def)
qed

lemma foldl_obj_set_by_key_map_of:
  "map_of (foldl (\<lambda>pm f. obj_set (k f) (V (k f)) pm) pm frs) x
     = (if x \<in> k ` set frs \<and> x \<noteq> ''__proto__'' then Some (V x) else map_of pm x)"
proof (induction frs arbitrary: pm)
  case Nil
  then show ?case by simp
next
  case (Cons f frs)
  show ?case
  proof (cases "k f = ''__proto__''")
    case True
    then show ?thesis
      by (auto simp add: Cons.IH obj_set_proto)
  next
    case False
    then show ?thesis
      by (simp add: Cons.IH obj_set_map_of)
  qed
qed

lemma foldl_obj_set_by_key_distinct:
  "distinct (map fst pm)
     \<Longrightarrow> distinct (map fst (foldl (\<lambda>pm f. obj_set (k f) (V (k f)) pm) pm frs))"
  by (induction frs arbitrary: pm) (simp_all add: obj_set_distinct)

lemma foldl_obj_set_by_key_keys:
  "fst ` set (foldl (\<lambda>pm f. obj_set (k f) (V (k f)) pm) pm frs)
     = fst ` set pm \<union> (k ` set frs - {''__proto__''})"
  by (induction frs arbitrary: pm) (auto simp add: obj_set_keys)

lemma filter_key_distinct:
  "distinct (map fst xs) \<Longrightarrow> map_of xs x = Some c
     \<Longrightarrow> filter (\<lambda>(k, v). k = x) xs = [(x, c)]"
proof (induction xs)
  case Nil
  then show ?case by simp
next
  case (Cons p xs)
  obtain k v where p: "p = (k, v)" by (cases p)
  show ?case
  proof (cases "k = x")
    case True
    with Cons.prems p have "v = c" and "x \<notin> fst ` set xs"
      by auto
    then have "filter (\<lambda>(k, v). k = x) xs = []"
      by (force simp add: filter_empty_conv)
    with True \<open>v = c\<close> show ?thesis
      by (simp add: p)
  next
    case False
    with Cons p show ?thesis
      by simp
  qed
qed

lemma normalizeManifest_lookup:
  assumes "distinct (map fst raw)" and "inj_on (normalizeUrl base) (fst ` set raw)"
    and "map_of raw x = Some c" and "normalizeUrl base x \<noteq> ''__proto__''"
  shows "map_of (normalizeManifest base raw) (normalizeUrl base x)
           = Some (normalizeTargets base c)"
proof -
  have x: "x \<in> fst ` set raw"
    using assms(3) by (metis map_of_eq_None_iff option.distinct(1))
  have "filter (\<lambda>(k, v). normalizeUrl base k = normalizeUrl base x) raw
          = filter (\<lambda>(k, v). k = x) raw"
  proof (rule filter_cong [OF refl])
    fix p
    assume "p \<in> set raw"
    then have "fst p \<in> fst ` set raw" by simp
    with x assms(2) have "normalizeUrl base (fst p) = normalizeUrl base x \<longleftrightarrow> fst p = x"
      by (auto dest: inj_onD)
    then show "(case p of (k, v) \<Rightarrow> normalizeUrl base k = normalizeUrl base x)
                 = (case p of (k, v) \<Rightarrow> k = x)"
      by (cases p) simp
  qed
  also have "\<dots> = [(x, c)]"
    using assms(1,3) by (rule filter_key_distinct)
  finally have f: "filter (\<lambda>(k, v). normalizeUrl base k = normalizeUrl base x) raw = [(x, c)]" .
  then have "map_of (rev (map (\<lambda>(k, v). (normalizeUrl base k, normalizeTargets base v)) raw))
               (normalizeUrl base x) = Some (normalizeTargets base c)"
    using map_of_rev_last [of "normalizeUrl base" "normalizeUrl base x" raw "normalizeTargets base"]
    by simp
  then show ?thesis
    unfolding normalizeManifest_def using assms(4) by (simp add: foldl_obj_set_map_of)
qed

text \<open>
  C1, as amended: the manifest generation resolves the shell URL (the entrypoint URL when
  no shell is configured) without an ignore list, and every fragment with the ignore list
  made of the shell URL followed by the keys of the shell's collection. When every
  resolution succeeds, then among the URLs that are not names of members of
  \<^verbatim>\<open>Object.prototype\<close> the shell's collection holds exactly the shell's imported URLs, and
  a fragment's collection holds exactly the fragment's imported URLs that are neither the
  shell URL nor a key of the shell's collection; normalizing the fragment's collection
  gives, apart from \<^verbatim>\<open>__proto__\<close>, the normalized URLs of the collection as keys; and
  when the entry URLs normalize to distinct keys, the final manifest maps the fragment's
  normalized URL to the fragment's collection, normalized, if neither the fragment's URL
  nor its normalized form is \<^verbatim>\<open>__proto__\<close> (and likewise the shell's normalized URL to
  the shell's collection, normalized, unless a fragment has the shell's URL).
\<close>

theorem fragments_exclude_shell:
  fixes this :: AddPushManifest
    and analyze :: "(string \<rightharpoonup> File) \<Rightarrow> string \<Rightarrow> AnalyzedDocument"
    and urlFromPath :: "string \<Rightarrow> string \<Rightarrow> string"
  defines "base \<equiv> basePath this"
    and "analyzer \<equiv> analyze (files this)"
    and "toUrl \<equiv> urlFromPath (root (config this))"
    and "shellUrl \<equiv> urlFromPath (root (config this))
                       (or_else (shell (config this)) (entrypoint (config this)))"
  assumes docs: "\<forall>u \<in> set (shellUrl # map toUrl (fragments (config this))).
                   analyzer u = Document (importsOf u)"
    and f: "f \<in> set (fragments (config this))"
  shows "\<exists>shellEntries fragmentEntries pushManifest.
           generatePushManifestEntryForUrl analyzer shellUrl None = Inr shellEntries \<and>
           fst ` set shellEntries - set objectPrototypeKeys
             = url ` set (importsOf shellUrl) - set objectPrototypeKeys \<and>
           generatePushManifestEntryForUrl analyzer (toUrl f)
             (Some ([shellUrl] @ map fst shellEntries)) = Inr fragmentEntries \<and>
           fst ` set fragmentEntries - set objectPrototypeKeys
             = {u \<in> url ` set (importsOf (toUrl f)).
                  u \<noteq> shellUrl \<and> u \<notin> fst ` set shellEntries} - set objectPrototypeKeys \<and>
           generatePushManifest urlFromPath analyze this = Inr pushManifest \<and>
           fst ` set (normalizeTargets base fragmentEntries) - {''__proto__''}
             = normalizeUrl base ` fst ` set fragmentEntries - {''__proto__''} \<and>
           (inj_on (normalizeUrl base) (set (shellUrl # map toUrl (fragments (config this))))
              \<longrightarrow> (toUrl f \<noteq> ''__proto__'' \<and> normalizeUrl base (toUrl f) \<noteq> ''__proto__''
                      \<longrightarrow> map_of pushManifest (normalizeUrl base (toUrl f))
                            = Some (normalizeTargets base fragmentEntries)) \<and>
                  (shellUrl \<notin> toUrl ` set (fragments (config this)) \<and>
                   shellUrl \<noteq> ''__proto__'' \<and> normalizeUrl base shellUrl \<noteq> ''__proto__''
                     \<longrightarrow> map_of pushManifest (normalizeUrl base shellUrl)
                           = Some (normalizeTargets base shellEntries)))"
proof -
  let ?frs = "fragments (config this)"
  let ?shellEntries = "foldl (addImport None) [] (importsOf shellUrl)"
  let ?ign = "[shellUrl] @ map fst ?shellEntries"
  let ?V = "\<lambda>u. foldl (addImport (Some ?ign)) [] (importsOf u)"
  let ?pm = "obj_set shellUrl ?shellEntries []"
  let ?raw = "foldl (\<lambda>pm f. obj_set (toUrl f) (?V (toUrl f)) pm) ?pm ?frs"
  have shell_doc: "analyzer shellUrl = Document (importsOf shellUrl)"
    using docs by simp
  have frag_docs: "\<forall>f \<in> set ?frs. analyzer (toUrl f) = Document (importsOf (toUrl f))"
    using docs by simp
  have shell: "generatePushManifestEntryForUrl analyzer shellUrl None = Inr ?shellEntries"
    using shell_doc by (rule generate_entry_Document)
  have shell_keys: "fst ` set ?shellEntries - set objectPrototypeKeys
                      = url ` set (importsOf shellUrl) - set objectPrototypeKeys"
    by (auto simp add: foldl_addImport_keys shouldIgnoreFile_def)
  have frag: "generatePushManifestEntryForUrl analyzer (toUrl f) (Some ?ign) = Inr (?V (toUrl f))"
    using frag_docs f by (simp add: generate_entry_Document)
  have "fst ` set (?V (toUrl f))
      = {u \<in> url ` set (importsOf (toUrl f)).
           u \<noteq> shellUrl \<and> u \<notin> fst ` set ?shellEntries \<and> u \<notin> set objectPrototypeKeys}"
    unfolding foldl_addImport_keys [of "Some ?ign"] by (auto simp add: shouldIgnoreFile_def)
  then have frag_keys: "fst ` set (?V (toUrl f)) - set objectPrototypeKeys
      = {u \<in> url ` set (importsOf (toUrl f)). u \<noteq> shellUrl \<and> u \<notin> fst ` set ?shellEntries}
          - set objectPrototypeKeys"
    by blast
  have "addFragments analyzer toUrl ?ign ?frs ?pm = Inr ?raw"
    using frag_docs by (rule addFragments_Documents)
  then have raw: "rawPushManifest urlFromPath analyzer (config this) = Inr ?raw"
    using shell by (simp add: rawPushManifest_def shellUrl_def toUrl_def Let_def)
  then have gen: "generatePushManifest urlFromPath analyze this = Inr (normalizeManifest base ?raw)"
    by (simp add: generatePushManifest_def analyzer_def base_def)
  have pm_distinct: "distinct (map fst ?pm)"
    by (rule obj_set_distinct) simp
  have raw_distinct: "distinct (map fst ?raw)"
    using pm_distinct by (rule foldl_obj_set_by_key_distinct)
  have raw_keys: "fst ` set ?raw \<subseteq> set (shellUrl # map toUrl ?frs)"
    using foldl_obj_set_by_key_keys
      [where k = toUrl and V = ?V and pm = ?pm and frs = ?frs]
    by (auto simp add: obj_set_keys split: if_splits)
  have raw_lookup: "map_of ?raw x
      = (if x \<in> toUrl ` set ?frs \<and> x \<noteq> ''__proto__'' then Some (?V x) else map_of ?pm x)" for x
    by (rule foldl_obj_set_by_key_map_of)
  have final: "inj_on (normalizeUrl base) (set (shellUrl # map toUrl ?frs))
      \<longrightarrow> (toUrl f \<noteq> ''__proto__'' \<and> normalizeUrl base (toUrl f) \<noteq> ''__proto__''
              \<longrightarrow> map_of (normalizeManifest base ?raw) (normalizeUrl base (toUrl f))
                    = Some (normalizeTargets base (?V (toUrl f)))) \<and>
          (shellUrl \<notin> toUrl ` set ?frs \<and>
           shellUrl \<noteq> ''__proto__'' \<and> normalizeUrl base shellUrl \<noteq> ''__proto__''
             \<longrightarrow> map_of (normalizeManifest base ?raw) (normalizeUrl base shellUrl)
                   = Some (normalizeTargets base ?shellEntries))"
  proof (intro impI conjI)
    assume "inj_on (normalizeUrl base) (set (shellUrl # map toUrl ?frs))"
    then have raw_inj: "inj_on (normalizeUrl base) (fst ` set ?raw)"
      using raw_keys by (rule inj_on_subset)
    {
      assume a: "toUrl f \<noteq> ''__proto__'' \<and> normalizeUrl base (toUrl f) \<noteq> ''__proto__''"
      then have "map_of ?raw (toUrl f) = Some (?V (toUrl f))"
        using f raw_lookup [of "toUrl f"] by simp
      with raw_distinct raw_inj
      show "map_of (normalizeManifest base ?raw) (normalizeUrl base (toUrl f))
              = Some (normalizeTargets base (?V (toUrl f)))"
        using a by (simp add: normalizeManifest_lookup)
    }
    {
      assume a: "shellUrl \<notin> toUrl ` set ?frs \<and>
                 shellUrl \<noteq> ''__proto__'' \<and> normalizeUrl base shellUrl \<noteq> ''__proto__''"
      then have "map_of ?raw shellUrl = Some ?shellEntries"
        using raw_lookup [of shellUrl] by (simp add: obj_set_map_of)
      with raw_distinct raw_inj
      show "map_of (normalizeManifest base ?raw) (normalizeUrl base shellUrl)
              = Some (normalizeTargets base ?shellEntries)"
        using a by (simp add: normalizeManifest_lookup)
    }
  qed
  have final_keys: "fst ` set (normalizeTargets base (?V (toUrl f))) - {''__proto__''}
                      = normalizeUrl base ` fst ` set (?V (toUrl f)) - {''__proto__''}"
    by (auto simp add: normalizeTargets_keys)
  from shell shell_keys frag frag_keys gen final_keys final
  show ?thesis
    by blast
qed

lemma sample_recorded_fields: "config sample_recorded = sample_config" "basePath sample_recorded = []"
  by (simp_all add: sample_recorded_eq)

lemma sample_entry_urls:
  "sample_urlFromPath (root sample_config)
     (or_else (shell sample_config) (entrypoint sample_config)) = ''shell.html''"
  "map (sample_urlFromPath (root sample_config)) (fragments sample_config) = [''view.html'']"
  by (simp_all add: sample_config_def or_else_def sample_urlFromPath_def)

lemma sample_documents:
  "\<forall>u \<in> set (sample_urlFromPath (root (config sample_recorded))
               (or_else (shell (config sample_recorded)) (entrypoint (config sample_recorded))) #
             map (sample_urlFromPath (root (config sample_recorded)))
               (fragments (config sample_recorded))).
     sample_analyze (files sample_recorded) u = Document (sample_imports u)"
  by (simp add: sample_recorded_fields sample_entry_urls sample_shell_doc sample_view_doc)

lemma sample_view_fragment: "''view.html'' \<in> set (fragments (config sample_recorded))"
  by (simp add: sample_recorded_fields sample_config_def)

lemma sample_view_url: "sample_urlFromPath (root sample_config) ''view.html'' = ''view.html''"
  by (simp add: sample_config_def sample_urlFromPath_def)

theorem fragments_exclude_shell_witness:
  "generatePushManifestEntryForUrl (sample_analyze (files sample_recorded)) ''view.html''
     (Some [''shell.html'', ''/css/app.css'', ''elements/x-app.html''])
     = Inr [(''js/view.js'', \<lparr>type = Some TScript, weight = Some 1\<rparr>)] \<and>
   generatePushManifest sample_urlFromPath sample_analyze sample_recorded = Inr sample_manifest \<and>
   map_of sample_manifest ''view.html''
     = Some (normalizeTargets [] [(''js/view.js'', \<lparr>type = Some TScript, weight = Some 1\<rparr>)])"
proof -
  note t = fragments_exclude_shell
    [where this = sample_recorded and analyze = sample_analyze
       and urlFromPath = sample_urlFromPath and importsOf = sample_imports
       and f = "''view.html''", OF sample_documents sample_view_fragment,
       unfolded sample_recorded_fields sample_entry_urls sample_view_url]
  from t show ?thesis
    by (clarsimp simp add: sample_shell sample_view_ignoring_shell sample_generate
        sample_normalizeUrl)
qed

text \<open>
  The claim as stated fails when a fragment imports the shell itself: the shell URL is
  not in the shell's collection, and the fragment's entry still omits it.
\<close>

theorem fragments_counterexample:
  "generatePushManifestEntryForUrl (sample_analyze (files sample_recorded)) ''shell.html'' None
     = Inr [(''/css/app.css'', \<lparr>type = Some TStyle, weight = Some 1\<rparr>),
            (''elements/x-app.html'', \<lparr>type = Some TDocument, weight = Some 1\<rparr>)] \<and>
   generatePushManifestEntryForUrl (sample_analyze (files sample_recorded)) ''view.html'' None
     = Inr [(''/css/app.css'', \<lparr>type = Some TStyle, weight = Some 1\<rparr>),
            (''js/view.js'', \<lparr>type = Some TScript, weight = Some 1\<rparr>),
            (''shell.html'', \<lparr>type = Some TDocument, weight = Some 1\<rparr>)] \<and>
   generatePushManifest sample_urlFromPath sample_analyze sample_recorded
     = Inr [(''shell.html'',
              [(''css/app.css'', \<lparr>type = Some TStyle, weight = Some 1\<rparr>),
               (''elements/x-app.html'', \<lparr>type = Some TDocument, weight = Some 1\<rparr>)]),
            (''view.html'',
              [(''js/view.js'', \<lparr>type = Some TScript, weight = Some 1\<rparr>)])]"
  using sample_shell sample_view sample_generate
  by (simp add: sample_view_entries_def sample_manifest_def)

end
